theory Spec2Isabelle
  imports Main
begin

section \<open>The data of AnalysisResults.tsx\<close>

text \<open>
  The component imports \<^verbatim>\<open>AnalysisResult\<close>, \<^verbatim>\<open>BestPractice\<close> and
  \<^verbatim>\<open>IaCTemplateType\<close> from \<^verbatim>\<open>../types\<close>, a file that is not among the sources.
  The records below carry the fields that AnalysisResults.tsx itself reads: of a best
  practice \<^verbatim>\<open>id\<close>, \<^verbatim>\<open>name\<close>, \<^verbatim>\<open>relevant\<close>, \<^verbatim>\<open>applied\<close>, \<^verbatim>\<open>reasonApplied\<close>,
  \<^verbatim>\<open>reasonNotApplied\<close> and \<^verbatim>\<open>recommendations\<close>; of a result \<^verbatim>\<open>pillar\<close>,
  \<^verbatim>\<open>question\<close>, \<^verbatim>\<open>questionId\<close> and \<^verbatim>\<open>bestPractices\<close>. A field the cells test
  for truthiness before use (\<^verbatim>\<open>recommendations\<close>, the two reasons) is optional;
  \<^verbatim>\<open>id\<close> is written \<open>id_bp\<close>, since \<open>id\<close> is the identity function of HOL.
\<close>

record BestPractice =
  id_bp :: string
  name :: string
  relevant :: bool
  applied :: bool
  reasonApplied :: "string option"
  reasonNotApplied :: "string option"
  recommendations :: "string option"

record AnalysisResult =
  pillar :: string
  question :: string
  questionId :: string
  bestPractices :: "BestPractice list"

text \<open>
  \<^verbatim>\<open>interface EnhancedBestPractice extends BestPractice { pillar; question; questionId }\<close>
  is the record extension of \<open>BestPractice\<close> by the three fields.
\<close>

record EnhancedBestPractice = BestPractice +
  pillar :: string
  question :: string
  questionId :: string

section \<open>Flattening the nested results\<close>

text \<open>
  \<^verbatim>\<open>Array.prototype.flatMap\<close> with a callback that returns arrays: the callback's
  arrays, concatenated in the order of the elements.
\<close>

definition flatMap :: "('a \<Rightarrow> 'b list) \<Rightarrow> 'a list \<Rightarrow> 'b list" where
  "flatMap f xs = concat (map f xs)"

text \<open>
  The object literal \<^verbatim>\<open>{ ...bp, pillar: result.pillar, question: result.question,
  questionId: result.questionId }\<close>: a new object with the fields of \<open>bp\<close> and the
  three fields of the parent result.
\<close>

definition enhance :: "AnalysisResult \<Rightarrow> BestPractice \<Rightarrow> EnhancedBestPractice" where
  "enhance result bp =
     BestPractice.extend bp
       (EnhancedBestPractice.fields
          (AnalysisResult.pillar result)
          (AnalysisResult.question result)
          (AnalysisResult.questionId result))"

definition flattenedBestPractices :: "AnalysisResult list \<Rightarrow> EnhancedBestPractice list" where
  "flattenedBestPractices results =
     flatMap (\<lambda>result. map (\<lambda>bp. enhance result bp) (bestPractices result)) results"

text \<open>
  The position, in the flattened list, of the \<open>j\<close>-th best practice of the \<open>i\<close>-th
  result when rows are laid out in result order and then in best-practice order: all
  best practices of the results before \<open>i\<close> come first.
\<close>

definition rowIndex :: "AnalysisResult list \<Rightarrow> nat \<Rightarrow> nat \<Rightarrow> nat" where
  "rowIndex results i j = (\<Sum>r\<leftarrow>take i results. length (bestPractices r)) + j"

section \<open>Counting the best practices\<close>

text \<open>
  The counters are JavaScript numbers that only ever grow by one per array element;
  an array has fewer than \<open>2 ^ 32\<close> elements, a range in which such numbers are exact
  integers, so a counter is a \<open>nat\<close>.
\<close>

record Counts =
  applied :: nat
  notApplied :: nat
  notRelevant :: nat

record CountsWithTotal = Counts +
  totalReviewed :: nat

text \<open>The callback of \<^verbatim>\<open>practices.reduce\<close>: a new accumulator object at every step.\<close>

definition countStep :: "Counts \<Rightarrow> EnhancedBestPractice \<Rightarrow> Counts" where
  "countStep acc practice =
     \<lparr> Counts.applied = Counts.applied acc +
         (if relevant practice \<and> BestPractice.applied practice then 1 else 0),
       notApplied = notApplied acc +
         (if relevant practice \<and> \<not> BestPractice.applied practice then 1 else 0),
       notRelevant = notRelevant acc + (if \<not> relevant practice then 1 else 0) \<rparr>"

definition getBestPracticeCounts :: "EnhancedBestPractice list \<Rightarrow> CountsWithTotal" where
  "getBestPracticeCounts practices =
     (let counts = foldl countStep
            \<lparr> Counts.applied = 0, notApplied = 0, notRelevant = 0 \<rparr> practices
      in Counts.extend counts
           (CountsWithTotal.fields
              (Counts.applied counts + notApplied counts + notRelevant counts)))"

section \<open>Props, component state and the collaborators\<close>

text \<open>
  \<^verbatim>\<open>AnalysisResultsProps\<close>, data fields. \<^verbatim>\<open>IaCTemplateType\<close> is declared in
  \<^verbatim>\<open>../types\<close>; the component only passes the value on, so it is the type
  parameter \<open>'t\<close>. The four callback props (\<^verbatim>\<open>onDownloadRecommendations\<close>,
  \<^verbatim>\<open>onGenerateIacDocument\<close>, \<^verbatim>\<open>setIsLoadingDetails\<close>, \<^verbatim>\<open>setError\<close>) belong to
  the parent; a call of one is recorded as an \<open>Effect\<close> below.
\<close>

record 't AnalysisResultsProps =
  results :: "AnalysisResult list"
  isAnalyzing :: bool
  isDownloading :: bool
  isImplementing :: bool
  isLoadingDetails :: bool
  uploadedFileType :: string
  selectedIaCType :: 't
  fileId :: string
  fileName :: string
  lensAliasArn :: "string option"
  lensName :: string
  outputLanguage :: string

record PreferencesType =
  pageSize :: nat
  visibleContent :: "string list"

text \<open>The five \<^verbatim>\<open>useState\<close> cells of the component.\<close>

record ComponentState =
  preferences :: PreferencesType
  selectedItems :: "EnhancedBestPractice list"
  detailsModalVisible :: bool
  detailsContent :: string
  detailsError :: "string option"

text \<open>
  A value caught by \<^verbatim>\<open>catch (error)\<close>: an \<^verbatim>\<open>Error\<close> object with its message, or
  anything else.
\<close>

datatype Thrown = ErrorObject string | OtherValue

text \<open>How an awaited promise settles.\<close>

datatype 'a Outcome = Resolves 'a | Rejects Thrown

text \<open>What \<^verbatim>\<open>analyzerApi.getMoreDetails\<close> resolves to: the fields the handler reads.\<close>

record DetailsResult =
  content :: "string option"
  error :: "string option"

text \<open>
  Every call that leaves the component: the parent's callbacks, the API client, the
  chat subsystem, the collection hook's action and the console.
\<close>

datatype 't Effect =
    SetIsLoadingDetails bool
  | SetError "string option"
  | GetMoreDetails "EnhancedBestPractice list" string 't "string option" string string
  | CancelIaCGeneration
  | ConsoleError string Thrown
  | OpenChatWithSupportPrompt string
  | OnGenerateIacDocument
  | OnDownloadRecommendations
  | SetPropertyFiltering

text \<open>
  The API client is a parameter: for each call, how its promise settles.
  \<^verbatim>\<open>cancelIaCGeneration\<close> takes no argument.
\<close>

record 't AnalyzerApi =
  getMoreDetails ::
    "EnhancedBestPractice list \<Rightarrow> string \<Rightarrow> 't \<Rightarrow> string option \<Rightarrow> string \<Rightarrow> string
       \<Rightarrow> DetailsResult Outcome"
  cancelIaCGeneration :: "unit Outcome"

text \<open>
  The component's state, the calls made so far (oldest first), and the number of
  \<^verbatim>\<open>getMoreDetails\<close> promises that a handler awaits and that have not settled yet.
\<close>

record 't World =
  state :: ComponentState
  trace :: "'t Effect list"
  inFlight :: nat

datatype Completion = Normal | Throw Thrown

definition call :: "'t Effect \<Rightarrow> 't World \<Rightarrow> 't World" where
  "call e w = w\<lparr>trace := trace w @ [e]\<rparr>"

definition setSelectedItems :: "EnhancedBestPractice list \<Rightarrow> 't World \<Rightarrow> 't World" where
  "setSelectedItems v w = w\<lparr>state := (state w)\<lparr>selectedItems := v\<rparr>\<rparr>"

definition setDetailsModalVisible :: "bool \<Rightarrow> 't World \<Rightarrow> 't World" where
  "setDetailsModalVisible v w = w\<lparr>state := (state w)\<lparr>detailsModalVisible := v\<rparr>\<rparr>"

definition setDetailsContent :: "string \<Rightarrow> 't World \<Rightarrow> 't World" where
  "setDetailsContent v w = w\<lparr>state := (state w)\<lparr>detailsContent := v\<rparr>\<rparr>"

definition setDetailsError :: "string option \<Rightarrow> 't World \<Rightarrow> 't World" where
  "setDetailsError v w = w\<lparr>state := (state w)\<lparr>detailsError := v\<rparr>\<rparr>"

definition setPreferences :: "PreferencesType \<Rightarrow> 't World \<Rightarrow> 't World" where
  "setPreferences v w = w\<lparr>state := (state w)\<lparr>preferences := v\<rparr>\<rparr>"

text \<open>Truthiness of an optional string: defined and not the empty string.\<close>

definition truthy :: "string option \<Rightarrow> bool" where
  "truthy v = (case v of None \<Rightarrow> False | Some s \<Rightarrow> s \<noteq> [])"

text \<open>\<^verbatim>\<open>try { body } catch (error) { handler }\<close> and \<^verbatim>\<open>try { body } finally { fin }\<close>.\<close>

definition tryCatch ::
  "('w \<Rightarrow> Completion \<times> 'w) \<Rightarrow> (Thrown \<Rightarrow> 'w \<Rightarrow> Completion \<times> 'w) \<Rightarrow> 'w \<Rightarrow> Completion \<times> 'w" where
  "tryCatch body handler w =
     (case body w of
        (Normal, w') \<Rightarrow> (Normal, w')
      | (Throw e, w') \<Rightarrow> handler e w')"

definition tryFinally ::
  "('w \<Rightarrow> Completion \<times> 'w) \<Rightarrow> ('w \<Rightarrow> Completion \<times> 'w) \<Rightarrow> 'w \<Rightarrow> Completion \<times> 'w" where
  "tryFinally body fin w =
     (case body w of
        (c, w') \<Rightarrow>
          (case fin w' of
             (Normal, w'') \<Rightarrow> (c, w'')
           | (Throw e, w'') \<Rightarrow> (Throw e, w'')))"

section \<open>The handlers\<close>

definition handleGenerateIacClick :: "'t World \<Rightarrow> Completion \<times> 't World" where
  "handleGenerateIacClick w = (Normal, call OnGenerateIacDocument w)"

definition handleGetMoreDetails ::
  "'t AnalyzerApi \<Rightarrow> 't AnalysisResultsProps \<Rightarrow> 't World \<Rightarrow> Completion \<times> 't World" where
  "handleGetMoreDetails api props =
     tryFinally
       (tryCatch
          (\<lambda>w.
             let w1 = call (SetIsLoadingDetails True) w;
                 w2 = setDetailsError None w1;
                 w3 = call (GetMoreDetails (selectedItems (state w2)) (fileId props)
                             (selectedIaCType props) (lensAliasArn props) (lensName props)
                             (outputLanguage props)) w2
             in case getMoreDetails api (selectedItems (state w2)) (fileId props)
                       (selectedIaCType props) (lensAliasArn props) (lensName props)
                       (outputLanguage props) of
                  Rejects thrown \<Rightarrow> (Throw thrown, w3)
                | Resolves result \<Rightarrow>
                    let w4 = (if truthy (error result)
                              then setDetailsError (error result) w3 else w3)
                    in (case content result of
                          Some c \<Rightarrow>
                            if c \<noteq> []
                            then (Normal, setDetailsModalVisible True (setDetailsContent c w4))
                            else (Normal, call (SetError
                                    (Some ''No content received from analysis. Please try again.'')) w4)
                        | None \<Rightarrow>
                            (Normal, call (SetError
                               (Some ''No content received from analysis. Please try again.'')) w4)))
          (\<lambda>thrown w.
             (Normal, call (SetError (Some (case thrown of
                                              ErrorObject message \<Rightarrow> message
                                            | OtherValue \<Rightarrow> ''Failed to get detailed analysis''))) w)))
       (\<lambda>w. (Normal, call (SetIsLoadingDetails False) w))"

text \<open>
  The same handler as the program runs it in time. A click runs it up to the
  \<^verbatim>\<open>await\<close> of line 81: the two setters are called, the request is made, and the
  promise is in flight. The rest runs when the promise settles, with the outcome it
  settles to.
\<close>

definition handleGetMoreDetailsUntilAwait ::
  "'t AnalysisResultsProps \<Rightarrow> 't World \<Rightarrow> 't World" where
  "handleGetMoreDetailsUntilAwait props w =
     (let w1 = call (SetIsLoadingDetails True) w;
          w2 = setDetailsError None w1;
          w3 = call (GetMoreDetails (selectedItems (state w2)) (fileId props)
                      (selectedIaCType props) (lensAliasArn props) (lensName props)
                      (outputLanguage props)) w2
      in w3\<lparr>inFlight := Suc (inFlight w3)\<rparr>)"

definition handleGetMoreDetailsAfterAwait ::
  "DetailsResult Outcome \<Rightarrow> 't World \<Rightarrow> Completion \<times> 't World" where
  "handleGetMoreDetailsAfterAwait outcome w0 =
     tryFinally
       (tryCatch
          (\<lambda>w.
             case outcome of
               Rejects thrown \<Rightarrow> (Throw thrown, w)
             | Resolves result \<Rightarrow>
                 let w4 = (if truthy (error result)
                           then setDetailsError (error result) w else w)
                 in (case content result of
                       Some c \<Rightarrow>
                         if c \<noteq> []
                         then (Normal, setDetailsModalVisible True (setDetailsContent c w4))
                         else (Normal, call (SetError
                                 (Some ''No content received from analysis. Please try again.'')) w4)
                     | None \<Rightarrow>
                         (Normal, call (SetError
                            (Some ''No content received from analysis. Please try again.'')) w4)))
          (\<lambda>thrown w.
             (Normal, call (SetError (Some (case thrown of
                                              ErrorObject message \<Rightarrow> message
                                            | OtherValue \<Rightarrow> ''Failed to get detailed analysis''))) w)))
       (\<lambda>w. (Normal, call (SetIsLoadingDetails False) w))
       (w0\<lparr>inFlight := inFlight w0 - 1\<rparr>)"

definition handleCancelGeneration ::
  "'t AnalyzerApi \<Rightarrow> 't World \<Rightarrow> Completion \<times> 't World" where
  "handleCancelGeneration api =
     tryCatch
       (\<lambda>w. let w1 = call CancelIaCGeneration w
            in case cancelIaCGeneration api of
                 Rejects thrown \<Rightarrow> (Throw thrown, w1)
               | Resolves u \<Rightarrow> (Normal, w1))
       (\<lambda>thrown w. (Normal, call (ConsoleError ''Failed to cancel IaC generation:'' thrown) w))"

text \<open>
  The template literal of \<^verbatim>\<open>handleAiChatClick\<close>; \<open>CHR 0x27\<close> is the single quote.
\<close>

definition chatPrompt :: "EnhancedBestPractice \<Rightarrow> string" where
  "chatPrompt item =
     ''Can you provide more detailed recommendations and instructions for the best practice ''
     @ [CHR 0x27] @ name item @ [CHR 0x27] @ '' of the '' @ [CHR 0x27]
     @ EnhancedBestPractice.pillar item @ [CHR 0x27] @ '' pillar?''"

definition handleAiChatClick :: "EnhancedBestPractice \<Rightarrow> 't World \<Rightarrow> Completion \<times> 't World" where
  "handleAiChatClick item w = (Normal, call (OpenChatWithSupportPrompt (chatPrompt item)) w)"

section \<open>What is rendered\<close>

text \<open>
  The event handlers the JSX binds, by name. \<^verbatim>\<open>onDownloadRecommendations\<close> is the
  parent's callback, bound to the download button as it is.
\<close>

datatype Handler =
    HandleGetMoreDetails
  | HandleGenerateIacClick
  | HandleCancelGeneration
  | OnDownloadRecommendationsProp
  | HandleAiChatClick EnhancedBestPractice

text \<open>The props of a toolkit \<^verbatim>\<open>Button\<close> that decide whether a click reaches \<^verbatim>\<open>onClick\<close>.\<close>

record ButtonProps =
  onClick :: Handler
  loading :: bool
  disabled :: bool

text \<open>\<^verbatim>\<open>String.prototype.startsWith\<close>.\<close>

definition startsWith :: "string \<Rightarrow> string \<Rightarrow> bool" where
  "startsWith s p = (take (length p) s = p)"

text \<open>
  The buttons of the table header's \<^verbatim>\<open>actions\<close>, in the order of the JSX; the cancel
  button is the operand of \<^verbatim>\<open>isImplementing && (...)\<close>.
\<close>

definition headerActions :: "'t AnalysisResultsProps \<Rightarrow> ComponentState \<Rightarrow> ButtonProps list" where
  "headerActions props st =
     [ \<lparr> onClick = HandleGetMoreDetails,
         loading = isLoadingDetails props,
         disabled = (length (selectedItems st) = 0 \<or> isLoadingDetails props) \<rparr>,
       \<lparr> onClick = HandleGenerateIacClick,
         loading = isImplementing props,
         disabled = (isDownloading props \<or> isImplementing props \<or>
                     \<not> startsWith (uploadedFileType props) ''image/'') \<rparr> ]
     @ (if isImplementing props
        then [ \<lparr> onClick = HandleCancelGeneration, loading = False, disabled = False \<rparr> ]
        else [])
     @ [ \<lparr> onClick = OnDownloadRecommendationsProp,
           loading = isDownloading props,
           disabled = (isDownloading props \<or> isImplementing props) \<rparr> ]"

text \<open>A table cell: text alone, or text followed by a button.\<close>

datatype Cell = CellText string | CellWithButton string ButtonProps

text \<open>An optional string as JSX renders it: \<^verbatim>\<open>undefined\<close> renders nothing.\<close>

definition rendered :: "string option \<Rightarrow> string" where
  "rendered v = (case v of None \<Rightarrow> [] | Some s \<Rightarrow> s)"

text \<open>The \<^verbatim>\<open>cell\<close> function of the \<^verbatim>\<open>recommendations\<close> column.\<close>

definition recommendationsCell :: "EnhancedBestPractice \<Rightarrow> Cell" where
  "recommendationsCell item =
     (if \<not> relevant item then CellText ''N/A''
      else if \<not> BestPractice.applied item \<and> truthy (recommendations item)
      then CellWithButton (rendered (recommendations item))
             \<lparr> onClick = HandleAiChatClick item, loading = False, disabled = False \<rparr>
      else CellText (if \<not> BestPractice.applied item \<and> truthy (recommendations item)
                     then rendered (recommendations item) else ''N/A''))"

text \<open>
  \<^verbatim>\<open>columnDisplay={preferences.visibleContent.map(id => ({ id, visible: true }))}\<close>:
  the table shows a column when the list has its id with \<^verbatim>\<open>visible: true\<close>.
\<close>

definition columnDisplay :: "ComponentState \<Rightarrow> (string \<times> bool) list" where
  "columnDisplay st = map (\<lambda>columnId. (columnId, True)) (visibleContent (preferences st))"

definition columnShown :: "ComponentState \<Rightarrow> string \<Rightarrow> bool" where
  "columnShown st columnId = ((columnId, True) \<in> set (columnDisplay st))"

text \<open>
  The rows of the table body. \<^verbatim>\<open>items\<close> is what the collection hook returns for the
  flattened rows (filtered, sorted, one page); the hook belongs to the toolkit and is
  the parameter \<open>collection\<close>. With \<^verbatim>\<open>loading={isAnalyzing}\<close> set, the table shows its
  loading text in place of the rows.
\<close>

definition tableRows ::
  "(EnhancedBestPractice list \<Rightarrow> EnhancedBestPractice list) \<Rightarrow> 't AnalysisResultsProps
     \<Rightarrow> EnhancedBestPractice list" where
  "tableRows collection props =
     (if isAnalyzing props then []
      else collection (flattenedBestPractices (results props)))"

section \<open>The lens alias and the link of the name column\<close>

text \<open>
  \<^verbatim>\<open>String.prototype.split\<close> with a separator of one character: the pieces between
  the separators, at least one piece.
\<close>

fun split :: "char \<Rightarrow> string \<Rightarrow> string list" where
  "split sep [] = [[]]"
| "split sep (c # cs) =
     (if c = sep then [] # split sep cs
      else (case split sep cs of
              [] \<Rightarrow> [[c]]
            | piece # pieces \<Rightarrow> (c # piece) # pieces))"

text \<open>\<^verbatim>\<open>Array.prototype.pop\<close>, its value: the last element, \<^verbatim>\<open>undefined\<close> on \<open>[]\<close>.\<close>

definition pop :: "'a list \<Rightarrow> 'a option" where
  "pop xs = (if xs = [] then None else Some (last xs))"

text \<open>
  \<^verbatim>\<open>lensAliasArn?.split('/')?.pop() || 'wellarchitected'\<close>: the optional chain is
  \<^verbatim>\<open>undefined\<close> when \<^verbatim>\<open>lensAliasArn\<close> is, and \<^verbatim>\<open>||\<close> takes the default when its left
  operand is \<^verbatim>\<open>undefined\<close> or the empty string.
\<close>

definition lensAlias :: "string option \<Rightarrow> string" where
  "lensAlias arn =
     (let popped = (case arn of None \<Rightarrow> None | Some s \<Rightarrow> pop (split (CHR ''/'') s))
      in if truthy popped then rendered popped else ''wellarchitected'')"

text \<open>
  The \<^verbatim>\<open>href\<close> of the name column's link. \<^verbatim>\<open>encodeURIComponent\<close> is the language's
  own function and is a parameter here; \<open>CHR 0x22\<close> is the double quote.
\<close>

definition nameLinkHref ::
  "(string \<Rightarrow> string) \<Rightarrow> 't AnalysisResultsProps \<Rightarrow> EnhancedBestPractice \<Rightarrow> string" where
  "nameLinkHref encodeURIComponent props item =
     (if lensAlias (lensAliasArn props) = ''wellarchitected''
      then ''https://docs.aws.amazon.com/wellarchitected/latest/framework/'' @ id_bp item @ ''.html''
      else ''https://docs.aws.amazon.com/search/doc-search.html?searchPath=documentation-guide&searchQuery=''
           @ encodeURIComponent
               ([CHR 0x22] @ lensName props @ [CHR 0x22] @ ''+'' @ [CHR 0x22]
                @ EnhancedBestPractice.pillar item @ [CHR 0x22]))"

text \<open>
  The two targets the claim names: the framework page of a best practice, and the
  documentation search for a lens and a pillar.
\<close>

definition frameworkPage :: "string \<Rightarrow> string" where
  "frameworkPage bpId =
     ''https://docs.aws.amazon.com/wellarchitected/latest/framework/'' @ bpId @ ''.html''"

definition documentationSearch :: "(string \<Rightarrow> string) \<Rightarrow> string \<Rightarrow> string \<Rightarrow> string" where
  "documentationSearch encodeURIComponent lens pil =
     ''https://docs.aws.amazon.com/search/doc-search.html?searchPath=documentation-guide&searchQuery=''
     @ encodeURIComponent ([CHR 0x22] @ lens @ [CHR 0x22] @ ''+'' @ [CHR 0x22] @ pil @ [CHR 0x22])"

text \<open>
  The substring after the last \<open>/\<close> of a string, the whole string when it has none:
  the longest suffix without a \<open>/\<close>.
\<close>

definition afterLastSlash :: "string \<Rightarrow> string" where
  "afterLastSlash s = rev (takeWhile (\<lambda>c. c \<noteq> CHR ''/'') (rev s))"

section \<open>Events of the user interface\<close>

text \<open>
  What a click starts. The get-more-details handler is asynchronous and runs up to its
  \<^verbatim>\<open>await\<close>; what follows the \<^verbatim>\<open>await\<close> is a step of its own
  (\<open>RequestSettles\<close> below). The cancel handler also awaits, but nothing follows its
  \<^verbatim>\<open>await\<close> except the \<^verbatim>\<open>console.error\<close> of a rejection, so it is run whole.
\<close>

definition runHandler ::
  "'t AnalyzerApi \<Rightarrow> 't AnalysisResultsProps \<Rightarrow> Handler \<Rightarrow> 't World \<Rightarrow> Completion \<times> 't World" where
  "runHandler api props h w =
     (case h of
        HandleGetMoreDetails \<Rightarrow> (Normal, handleGetMoreDetailsUntilAwait props w)
      | HandleGenerateIacClick \<Rightarrow> handleGenerateIacClick w
      | HandleCancelGeneration \<Rightarrow> handleCancelGeneration api w
      | OnDownloadRecommendationsProp \<Rightarrow> (Normal, call OnDownloadRecommendations w)
      | HandleAiChatClick item \<Rightarrow> handleAiChatClick item w)"

text \<open>
  A click on a toolkit button: \<^verbatim>\<open>onClick\<close> fires unless the button is disabled or
  shows its loading state.
\<close>

definition clickButton ::
  "'t AnalyzerApi \<Rightarrow> 't AnalysisResultsProps \<Rightarrow> ButtonProps \<Rightarrow> 't World \<Rightarrow> Completion \<times> 't World" where
  "clickButton api props b w =
     (if disabled b \<or> loading b then (Normal, w) else runHandler api props (onClick b) w)"

text \<open>
  What a user can do to the rendered component: click the \<open>k\<close>-th button of the header,
  click the button in the recommendations cell of the \<open>k\<close>-th row of the table body,
  change the selection, dismiss the details modal, confirm the preferences, clear the
  filter. A cell can be clicked only where it is rendered: in a row of the table body,
  and while the \<^verbatim>\<open>recommendations\<close> column is shown.
\<close>

datatype UiEvent =
    ClickHeaderAction nat
  | ClickRecommendationsButton nat
  | SelectionChange "EnhancedBestPractice list"
  | DismissDetailsModal
  | ConfirmPreferences "nat option" "string list option"
  | ClearFilter

definition uiEvent ::
  "'t AnalyzerApi \<Rightarrow> (EnhancedBestPractice list \<Rightarrow> EnhancedBestPractice list)
     \<Rightarrow> 't AnalysisResultsProps \<Rightarrow> UiEvent \<Rightarrow> 't World \<Rightarrow> Completion \<times> 't World" where
  "uiEvent api collection props ev w =
     (case ev of
        ClickHeaderAction k \<Rightarrow>
          (let buttons = headerActions props (state w)
           in if k < length buttons then clickButton api props (buttons ! k) w
              else (Normal, w))
      | ClickRecommendationsButton k \<Rightarrow>
          (let rows = tableRows collection props
           in if k < length rows \<and> columnShown (state w) ''recommendations''
              then (case recommendationsCell (rows ! k) of
                      CellText t \<Rightarrow> (Normal, w)
                    | CellWithButton t b \<Rightarrow> clickButton api props b w)
              else (Normal, w))
      | SelectionChange items \<Rightarrow> (Normal, setSelectedItems items w)
      | DismissDetailsModal \<Rightarrow> (Normal, setDetailsModalVisible False w)
      | ConfirmPreferences chosenSize chosenContent \<Rightarrow>
          (Normal, setPreferences
             \<lparr> pageSize = (case chosenSize of None \<Rightarrow> 10 | Some n \<Rightarrow> if n = 0 then 10 else n),
               visibleContent = (case chosenContent of None \<Rightarrow> [] | Some v \<Rightarrow> v) \<rparr> w)
      | ClearFilter \<Rightarrow> (Normal, call SetPropertyFiltering w))"

section \<open>The component over time\<close>

text \<open>
  Between two renders one thing happens: the user does something to what is rendered
  (with whatever the collection hook shows at that moment), a \<^verbatim>\<open>getMoreDetails\<close>
  promise in flight settles, or the parent renders the component with new props.
\<close>

datatype 't Step =
    UserDoes "EnhancedBestPractice list \<Rightarrow> EnhancedBestPractice list" UiEvent
  | RequestSettles "DetailsResult Outcome"
  | ParentRenders "'t AnalysisResultsProps"

definition step ::
  "'t AnalyzerApi \<Rightarrow> 't Step \<Rightarrow> 't AnalysisResultsProps \<times> 't World
     \<Rightarrow> 't AnalysisResultsProps \<times> 't World" where
  "step api s c =
     (case c of (props, w) \<Rightarrow>
        (case s of
           UserDoes collection ev \<Rightarrow> (props, snd (uiEvent api collection props ev w))
         | RequestSettles outcome \<Rightarrow>
             (if inFlight w = 0 then (props, w)
              else (props, snd (handleGetMoreDetailsAfterAwait outcome w)))
         | ParentRenders props' \<Rightarrow> (props', w)))"

definition run ::
  "'t AnalyzerApi \<Rightarrow> 't Step list \<Rightarrow> 't AnalysisResultsProps \<times> 't World
     \<Rightarrow> 't AnalysisResultsProps \<times> 't World" where
  "run api steps c = foldl (\<lambda>c' s. step api s c') c steps"

text \<open>
  The loading flag lives in the parent: the component reports it through
  \<^verbatim>\<open>setIsLoadingDetails\<close> and reads it back as the prop \<^verbatim>\<open>isLoadingDetails\<close>.
  \<open>lastLoading\<close> is the value last reported (\<^verbatim>\<open>false\<close> before any report). A parent
  that feeds the flag back renders the component, after every step, with that value as
  the prop; \<open>runFedBack\<close> is a run under such a parent.
\<close>

definition lastLoading :: "'t Effect list \<Rightarrow> bool" where
  "lastLoading calls =
     foldl (\<lambda>flag e. case e of SetIsLoadingDetails v \<Rightarrow> v | _ \<Rightarrow> flag) False calls"

definition feedBack ::
  "'t AnalysisResultsProps \<times> 't World \<Rightarrow> 't AnalysisResultsProps \<times> 't World" where
  "feedBack c =
     (case c of (props, w) \<Rightarrow> (props\<lparr>isLoadingDetails := lastLoading (trace w)\<rparr>, w))"

definition runFedBack ::
  "'t AnalyzerApi \<Rightarrow> 't Step list \<Rightarrow> 't AnalysisResultsProps \<times> 't World
     \<Rightarrow> 't AnalysisResultsProps \<times> 't World" where
  "runFedBack api steps c = foldl (\<lambda>c' s. feedBack (step api s c')) (feedBack c) steps"

text \<open>The calls made between two worlds: what the later trace adds to the earlier.\<close>

definition newCalls :: "'t World \<Rightarrow> 't World \<Rightarrow> 't Effect list" where
  "newCalls w w' = drop (length (trace w)) (trace w')"

definition isGetMoreDetails :: "'t Effect \<Rightarrow> bool" where
  "isGetMoreDetails e = (case e of GetMoreDetails items f t a l lang \<Rightarrow> True | _ \<Rightarrow> False)"

definition isSetError :: "'t Effect \<Rightarrow> bool" where
  "isSetError e = (case e of SetError m \<Rightarrow> True | _ \<Rightarrow> False)"

definition isSetIsLoadingDetails :: "'t Effect \<Rightarrow> bool" where
  "isSetIsLoadingDetails e = (case e of SetIsLoadingDetails b \<Rightarrow> True | _ \<Rightarrow> False)"

section \<open>The same computation on a store of objects\<close>

text \<open>
  In the running program \<^verbatim>\<open>results\<close>, every result, every \<^verbatim>\<open>bestPractices\<close> array
  and every best practice is an object that the parent shares with the component. To
  say what rendering does to them, lines 107 to 133 are modelled a second time on an
  explicit store: a list of objects, the address of an object being its position, and
  a new object taking the next free position.
\<close>

type_synonym addr = nat

text \<open>
  The objects: a best practice, a result (its \<^verbatim>\<open>bestPractices\<close> field holds the
  address of an array), an array of addresses, a flattened row, and the two shapes of
  the counters.
\<close>

datatype Obj =
    BestPracticeObj BestPractice
  | ResultObj string string string addr
  | ArrayObj "addr list"
  | EnhancedObj EnhancedBestPractice
  | CountsObj Counts
  | CountsWithTotalObj CountsWithTotal

type_synonym Store = "Obj list"

definition alloc :: "Obj \<Rightarrow> Store \<Rightarrow> addr \<times> Store" where
  "alloc obj s = (length s, s @ [obj])"

text \<open>Reading an address; \<open>None\<close> where the store holds nothing.\<close>

definition deref :: "Store \<Rightarrow> addr \<Rightarrow> Obj option" where
  "deref s a = (if a < length s then Some (s ! a) else None)"

text \<open>
  \<^verbatim>\<open>result.bestPractices.map(bp => ({ ...bp, pillar: result.pillar, ... }))\<close>, the
  loop of \<^verbatim>\<open>map\<close>: each step reads \<open>bp\<close> and \<open>result\<close> and allocates the new row.
  A read that does not find an object of the declared type gives \<open>None\<close>.
\<close>

fun mapEnhance :: "addr \<Rightarrow> addr list \<Rightarrow> Store \<Rightarrow> (addr list \<times> Store) option" where
  "mapEnhance result [] s = Some ([], s)"
| "mapEnhance result (bp # bps) s =
     (case (deref s bp, deref s result) of
        (Some (BestPracticeObj b), Some (ResultObj p q qid arr)) \<Rightarrow>
          (case alloc (EnhancedObj
                  (BestPractice.extend b (EnhancedBestPractice.fields p q qid))) s of
             (row, s1) \<Rightarrow>
               (case mapEnhance result bps s1 of
                  Some (rows, s2) \<Rightarrow> Some (row # rows, s2)
                | None \<Rightarrow> None))
      | _ \<Rightarrow> None)"

text \<open>The callback of \<^verbatim>\<open>flatMap\<close>: the array that \<^verbatim>\<open>map\<close> returns is a new object.\<close>

definition flatMapCallback :: "addr \<Rightarrow> Store \<Rightarrow> (addr \<times> Store) option" where
  "flatMapCallback result s =
     (case deref s result of
        Some (ResultObj p q qid arr) \<Rightarrow>
          (case deref s arr of
             Some (ArrayObj bps) \<Rightarrow>
               (case mapEnhance result bps s of
                  Some (rows, s1) \<Rightarrow> Some (alloc (ArrayObj rows) s1)
                | None \<Rightarrow> None)
           | _ \<Rightarrow> None)
      | _ \<Rightarrow> None)"

text \<open>The loop of \<^verbatim>\<open>flatMap\<close>: the elements of each returned array, appended.\<close>

fun flatMapResults :: "addr list \<Rightarrow> Store \<Rightarrow> (addr list \<times> Store) option" where
  "flatMapResults [] s = Some ([], s)"
| "flatMapResults (result # rest) s =
     (case flatMapCallback result s of
        Some (mapped, s1) \<Rightarrow>
          (case deref s1 mapped of
             Some (ArrayObj rows) \<Rightarrow>
               (case flatMapResults rest s1 of
                  Some (others, s2) \<Rightarrow> Some (rows @ others, s2)
                | None \<Rightarrow> None)
           | _ \<Rightarrow> None)
      | None \<Rightarrow> None)"

definition flattenInStore :: "addr \<Rightarrow> Store \<Rightarrow> (addr \<times> Store) option" where
  "flattenInStore resultsAddr s =
     (case deref s resultsAddr of
        Some (ArrayObj rs) \<Rightarrow>
          (case flatMapResults rs s of
             Some (rows, s1) \<Rightarrow> Some (alloc (ArrayObj rows) s1)
           | None \<Rightarrow> None)
      | _ \<Rightarrow> None)"

text \<open>
  The loop of \<^verbatim>\<open>reduce\<close>: the callback returns a new accumulator object at every
  step.
\<close>

fun reduceCounts :: "addr \<Rightarrow> addr list \<Rightarrow> Store \<Rightarrow> (addr \<times> Store) option" where
  "reduceCounts acc [] s = Some (acc, s)"
| "reduceCounts acc (practice # rest) s =
     (case (deref s acc, deref s practice) of
        (Some (CountsObj c), Some (EnhancedObj p)) \<Rightarrow>
          (case alloc (CountsObj (countStep c p)) s of
             (acc', s1) \<Rightarrow> reduceCounts acc' rest s1)
      | _ \<Rightarrow> None)"

definition countsInStore :: "addr \<Rightarrow> Store \<Rightarrow> (addr \<times> Store) option" where
  "countsInStore practices s =
     (case deref s practices of
        Some (ArrayObj ps) \<Rightarrow>
          (case alloc (CountsObj \<lparr> Counts.applied = 0, notApplied = 0, notRelevant = 0 \<rparr>) s of
             (initial, s0) \<Rightarrow>
               (case reduceCounts initial ps s0 of
                  Some (acc, s1) \<Rightarrow>
                    (case deref s1 acc of
                       Some (CountsObj counts) \<Rightarrow>
                         Some (alloc (CountsWithTotalObj
                                 (Counts.extend counts
                                    (CountsWithTotal.fields
                                       (Counts.applied counts + notApplied counts +
                                        notRelevant counts)))) s1)
                     | _ \<Rightarrow> None)
                | None \<Rightarrow> None))
      | _ \<Rightarrow> None)"

text \<open>Lines 124 to 133: the flattened rows, then their counts.\<close>

definition renderInStore :: "addr \<Rightarrow> Store \<Rightarrow> (addr \<times> addr \<times> Store) option" where
  "renderInStore resultsAddr s =
     (case flattenInStore resultsAddr s of
        Some (flat, s1) \<Rightarrow>
          (case countsInStore flat s1 of
             Some (counts, s2) \<Rightarrow> Some (flat, counts, s2)
           | None \<Rightarrow> None)
      | None \<Rightarrow> None)"

text \<open>
  What a store holds at an address, read back as the values of the first model:
  the nested results, the flattened rows, the counts.
\<close>

fun readBestPractices :: "Store \<Rightarrow> addr list \<Rightarrow> BestPractice list option" where
  "readBestPractices s [] = Some []"
| "readBestPractices s (a # as) =
     (case deref s a of
        Some (BestPracticeObj b) \<Rightarrow>
          (case readBestPractices s as of Some bs \<Rightarrow> Some (b # bs) | None \<Rightarrow> None)
      | _ \<Rightarrow> None)"

definition readResult :: "Store \<Rightarrow> addr \<Rightarrow> AnalysisResult option" where
  "readResult s a =
     (case deref s a of
        Some (ResultObj p q qid arr) \<Rightarrow>
          (case deref s arr of
             Some (ArrayObj bps) \<Rightarrow>
               (case readBestPractices s bps of
                  Some bs \<Rightarrow>
                    Some \<lparr> AnalysisResult.pillar = p, AnalysisResult.question = q,
                           AnalysisResult.questionId = qid, bestPractices = bs \<rparr>
                | None \<Rightarrow> None)
           | _ \<Rightarrow> None)
      | _ \<Rightarrow> None)"

fun readResultList :: "Store \<Rightarrow> addr list \<Rightarrow> AnalysisResult list option" where
  "readResultList s [] = Some []"
| "readResultList s (a # as) =
     (case readResult s a of
        Some r \<Rightarrow> (case readResultList s as of Some rs \<Rightarrow> Some (r # rs) | None \<Rightarrow> None)
      | None \<Rightarrow> None)"

definition readResults :: "Store \<Rightarrow> addr \<Rightarrow> AnalysisResult list option" where
  "readResults s a =
     (case deref s a of Some (ArrayObj rs) \<Rightarrow> readResultList s rs | _ \<Rightarrow> None)"

fun readRowList :: "Store \<Rightarrow> addr list \<Rightarrow> EnhancedBestPractice list option" where
  "readRowList s [] = Some []"
| "readRowList s (a # as) =
     (case deref s a of
        Some (EnhancedObj e) \<Rightarrow>
          (case readRowList s as of Some es \<Rightarrow> Some (e # es) | None \<Rightarrow> None)
      | _ \<Rightarrow> None)"

definition readRows :: "Store \<Rightarrow> addr \<Rightarrow> EnhancedBestPractice list option" where
  "readRows s a =
     (case deref s a of Some (ArrayObj rows) \<Rightarrow> readRowList s rows | _ \<Rightarrow> None)"

definition readCounts :: "Store \<Rightarrow> addr \<Rightarrow> CountsWithTotal option" where
  "readCounts s a = (case deref s a of Some (CountsWithTotalObj c) \<Rightarrow> Some c | _ \<Rightarrow> None)"

section \<open>Example inputs\<close>

definition exampleBP1 :: BestPractice where
  "exampleBP1 =
     \<lparr> id_bp = ''sec_securely_operate_multi_accounts'',
       name = ''Separate workloads using accounts'',
       relevant = True, applied = True,
       reasonApplied = Some ''Workloads are split over accounts'',
       reasonNotApplied = None, recommendations = None \<rparr>"

definition exampleBP2 :: BestPractice where
  "exampleBP2 =
     \<lparr> id_bp = ''sec_securely_operate_aws_account'',
       name = ''Secure account root user and properties'',
       relevant = True, applied = False,
       reasonApplied = None,
       reasonNotApplied = Some ''No MFA on the root user'',
       recommendations = Some ''Enable MFA for the root user'' \<rparr>"

definition exampleBP3 :: BestPractice where
  "exampleBP3 =
     \<lparr> id_bp = ''rel_backing_up_data_identified_backups_data'',
       name = ''Identify and back up all data that needs to be backed up'',
       relevant = False, applied = False,
       reasonApplied = None, reasonNotApplied = None, recommendations = None \<rparr>"

definition exampleResults :: "AnalysisResult list" where
  "exampleResults =
     [ \<lparr> AnalysisResult.pillar = ''Security'',
         AnalysisResult.question = ''How do you securely operate your workload?'',
         AnalysisResult.questionId = ''securely-operate'', bestPractices = [exampleBP1, exampleBP2] \<rparr>,
       \<lparr> AnalysisResult.pillar = ''Reliability'',
         AnalysisResult.question = ''How do you back up data?'',
         AnalysisResult.questionId = ''backing-up-data'', bestPractices = [exampleBP3] \<rparr> ]"

definition exampleProps :: "string AnalysisResultsProps" where
  "exampleProps =
     \<lparr> results = exampleResults, isAnalyzing = False, isDownloading = False,
       isImplementing = False, isLoadingDetails = False,
       uploadedFileType = ''image/png'',
       selectedIaCType = ''CloudFormation (.yaml) template'',
       fileId = ''file-1'', fileName = ''diagram.png'',
       lensAliasArn = Some ''arn:aws:wellarchitected::aws:lens/serverless'',
       lensName = ''Serverless Lens'', outputLanguage = ''en'' \<rparr>"

text \<open>
  The component as it is mounted (the preferences of line 61), with one row selected.
\<close>

definition exampleWorld :: "string World" where
  "exampleWorld =
     \<lparr> state =
         \<lparr> preferences =
             \<lparr> pageSize = 10,
               visibleContent = [''pillar'', ''question'', ''name'', ''status'', ''reason'',
                                 ''recommendations''] \<rparr>,
           selectedItems = [enhance (exampleResults ! 0) exampleBP2],
           detailsModalVisible = False, detailsContent = [], detailsError = None \<rparr>,
       trace = [], inFlight = 0 \<rparr>"

definition exampleApi :: "string AnalyzerApi" where
  "exampleApi =
     \<lparr> getMoreDetails = (\<lambda>items file template arn lens language.
          Resolves \<lparr> content = Some ''Enable MFA as follows'', error = None \<rparr>),
       cancelIaCGeneration = Resolves () \<rparr>"

definition failingApi :: "string AnalyzerApi" where
  "failingApi =
     \<lparr> getMoreDetails = (\<lambda>items file template arn lens language.
          Rejects (ErrorObject ''Network Error'')),
       cancelIaCGeneration = Rejects (ErrorObject ''Network Error'') \<rparr>"

definition noContentApi :: "string AnalyzerApi" where
  "noContentApi =
     \<lparr> getMoreDetails = (\<lambda>items file template arn lens language.
          Resolves \<lparr> content = None, error = Some ''The model returned nothing'' \<rparr>),
       cancelIaCGeneration = Resolves () \<rparr>"

definition implementingProps :: "string AnalysisResultsProps" where
  "implementingProps = exampleProps \<lparr> isImplementing := True \<rparr>"

definition exampleRow :: EnhancedBestPractice where
  "exampleRow = enhance (exampleResults ! 0) exampleBP2"

definition exampleStore :: Store where
  "exampleStore =
     [ BestPracticeObj exampleBP1, BestPracticeObj exampleBP2, BestPracticeObj exampleBP3,
       ArrayObj [0, 1], ArrayObj [2],
       ResultObj ''Security'' ''How do you securely operate your workload?''
         ''securely-operate'' 3,
       ResultObj ''Reliability'' ''How do you back up data?'' ''backing-up-data'' 4,
       ArrayObj [5, 6] ]"

section \<open>Properties of the flattening\<close>

lemma concat_nth_offset:
  "i < length xss \<Longrightarrow> j < length (xss ! i) \<Longrightarrow>
     concat xss ! ((\<Sum>xs\<leftarrow>take i xss. length xs) + j) = xss ! i ! j"
proof (induction xss arbitrary: i)
  case Nil
  then show ?case by simp
next
  case (Cons xs xss)
  show ?case
  proof (cases i)
    case 0
    with Cons.prems show ?thesis by (simp add: nth_append)
  next
    case (Suc k)
    with Cons.prems have "k < length xss" "j < length (xss ! k)" by simp_all
    from Cons.IH [OF this] Suc show ?thesis
      by (simp add: nth_append add.assoc)
  qed
qed

lemma length_flattened:
  "length (flattenedBestPractices rs) = (\<Sum>r\<leftarrow>rs. length (bestPractices r))"
  by (simp add: flattenedBestPractices_def flatMap_def length_concat comp_def)

lemma rowIndex_less:
  assumes "i < length rs" and "j < length (bestPractices (rs ! i))"
  shows "rowIndex rs i j < length (flattenedBestPractices rs)"
proof -
  have "rs = take i rs @ rs ! i # drop (Suc i) rs"
    using assms(1) by (simp add: id_take_nth_drop)
  then have "(\<Sum>r\<leftarrow>rs. length (bestPractices r)) =
      (\<Sum>r\<leftarrow>take i rs. length (bestPractices r)) + length (bestPractices (rs ! i)) +
      (\<Sum>r\<leftarrow>drop (Suc i) rs. length (bestPractices r))"
    by (metis (no_types, lifting) add.assoc list.simps(9) map_append sum_list.Cons
        sum_list_append)
  with assms(2) show ?thesis
    by (simp add: length_flattened rowIndex_def)
qed

lemma flattened_nth:
  assumes "i < length rs" and "j < length (bestPractices (rs ! i))"
  shows "flattenedBestPractices rs ! rowIndex rs i j =
           enhance (rs ! i) (bestPractices (rs ! i) ! j)"
proof -
  let ?f = "\<lambda>result. map (\<lambda>bp. enhance result bp) (bestPractices result)"
  have i: "i < length (map ?f rs)" using assms(1) by simp
  have j: "j < length (map ?f rs ! i)" using assms by simp
  have "(\<Sum>xs\<leftarrow>take i (map ?f rs). length xs) =
          (\<Sum>r\<leftarrow>take i rs. length (bestPractices r))"
    by (simp add: take_map comp_def)
  with concat_nth_offset [OF i j] assms show ?thesis
    by (simp add: flattenedBestPractices_def flatMap_def rowIndex_def)
qed

lemma enhance_fields:
  "BestPractice.truncate (enhance result bp) = bp"
  "EnhancedBestPractice.pillar (enhance result bp) = AnalysisResult.pillar result"
  "EnhancedBestPractice.question (enhance result bp) = AnalysisResult.question result"
  "EnhancedBestPractice.questionId (enhance result bp) = AnalysisResult.questionId result"
  by (simp_all add: enhance_def BestPractice.defs EnhancedBestPractice.defs)

lemma truncate_flattened:
  "map BestPractice.truncate (flattenedBestPractices rs) = concat (map bestPractices rs)"
  by (simp add: flattenedBestPractices_def flatMap_def map_concat comp_def enhance_fields)

text \<open>
  Claim C1. For every array \<open>rs\<close> of results, the flattened list has exactly one row
  per best practice of each result. Its length is the sum of the lengths of the
  \<open>bestPractices\<close> arrays; with the three added fields dropped, the rows are the best
  practices of the first result in their order, then those of the second, and so on;
  and the row of the \<open>j\<close>-th best practice of the \<open>i\<close>-th result, which stands at
  \<open>rowIndex rs i j\<close>, has that best practice's own fields and the parent result's
  \<open>pillar\<close>, \<open>question\<close> and \<open>questionId\<close>.
\<close>

theorem flattenedBestPractices_rows:
  "length (flattenedBestPractices rs) = (\<Sum>r\<leftarrow>rs. length (bestPractices r)) \<and>
   map BestPractice.truncate (flattenedBestPractices rs) = concat (map bestPractices rs) \<and>
   (\<forall>i j. i < length rs \<longrightarrow> j < length (bestPractices (rs ! i)) \<longrightarrow>
      rowIndex rs i j < length (flattenedBestPractices rs) \<and>
      (let row = flattenedBestPractices rs ! rowIndex rs i j
       in BestPractice.truncate row = bestPractices (rs ! i) ! j \<and>
          EnhancedBestPractice.pillar row = AnalysisResult.pillar (rs ! i) \<and>
          EnhancedBestPractice.question row = AnalysisResult.question (rs ! i) \<and>
          EnhancedBestPractice.questionId row = AnalysisResult.questionId (rs ! i)))"
proof (intro conjI allI impI)
  show "length (flattenedBestPractices rs) = (\<Sum>r\<leftarrow>rs. length (bestPractices r))"
    by (rule length_flattened)
next
  show "map BestPractice.truncate (flattenedBestPractices rs) = concat (map bestPractices rs)"
    by (rule truncate_flattened)
next
  fix i j
  assume i: "i < length rs" and j: "j < length (bestPractices (rs ! i))"
  show "rowIndex rs i j < length (flattenedBestPractices rs)"
    by (rule rowIndex_less [OF i j])
  show "let row = flattenedBestPractices rs ! rowIndex rs i j
        in BestPractice.truncate row = bestPractices (rs ! i) ! j \<and>
           EnhancedBestPractice.pillar row = AnalysisResult.pillar (rs ! i) \<and>
           EnhancedBestPractice.question row = AnalysisResult.question (rs ! i) \<and>
           EnhancedBestPractice.questionId row = AnalysisResult.questionId (rs ! i)"
    by (simp add: flattened_nth [OF i j] enhance_fields)
qed

text \<open>
  The theorem at the example: the only best practice of the second result is row 2,
  after the two rows of the first result.
\<close>

theorem flattenedBestPractices_rows_witness:
  "(1::nat) < length exampleResults \<and>
   (0::nat) < length (bestPractices (exampleResults ! 1)) \<and>
   length (flattenedBestPractices exampleResults) = 3 \<and>
   rowIndex exampleResults 1 0 = 2 \<and>
   BestPractice.truncate (flattenedBestPractices exampleResults ! rowIndex exampleResults 1 0)
     = exampleBP3 \<and>
   EnhancedBestPractice.pillar
     (flattenedBestPractices exampleResults ! rowIndex exampleResults 1 0) = ''Reliability''"
proof -
  have i: "(1::nat) < length exampleResults"
    by (simp add: exampleResults_def)
  have j: "(0::nat) < length (bestPractices (exampleResults ! 1))"
    by (simp add: exampleResults_def)
  have idx: "rowIndex exampleResults 1 0 = 2"
    by (simp add: rowIndex_def exampleResults_def)
  from flattenedBestPractices_rows [of exampleResults] i j
  have "length (flattenedBestPractices exampleResults) =
          (\<Sum>r\<leftarrow>exampleResults. length (bestPractices r))"
    and "BestPractice.truncate
           (flattenedBestPractices exampleResults ! rowIndex exampleResults 1 0) =
         bestPractices (exampleResults ! 1) ! 0"
    and "EnhancedBestPractice.pillar
           (flattenedBestPractices exampleResults ! rowIndex exampleResults 1 0) =
         AnalysisResult.pillar (exampleResults ! 1)"
    by (simp_all add: Let_def)
  with i j idx show ?thesis
    by (simp add: exampleResults_def)
qed

section \<open>Properties of the counts\<close>

lemma foldl_countStep:
  "Counts.applied (foldl countStep acc ps) =
     Counts.applied acc + length (filter (\<lambda>p. relevant p \<and> BestPractice.applied p) ps)"
  "notApplied (foldl countStep acc ps) =
     notApplied acc + length (filter (\<lambda>p. relevant p \<and> \<not> BestPractice.applied p) ps)"
  "notRelevant (foldl countStep acc ps) =
     notRelevant acc + length (filter (\<lambda>p. \<not> relevant p) ps)"
  by (induction ps arbitrary: acc) (simp_all add: countStep_def)

lemma length_three_buckets:
  "length (filter (\<lambda>p. relevant p \<and> BestPractice.applied p) ps) +
   length (filter (\<lambda>p. relevant p \<and> \<not> BestPractice.applied p) ps) +
   length (filter (\<lambda>p. \<not> relevant p) ps) = length ps"
  by (induction ps) auto

text \<open>
  Claim C5. For every list of enhanced best practices, \<open>applied\<close> is the number of items
  that are relevant and applied, \<open>notApplied\<close> the number that are relevant and not
  applied, \<open>notRelevant\<close> the number that are not relevant, and \<open>totalReviewed\<close>, the
  sum of the three, is the length of the list. Every item is counted in exactly one
  bucket: a step of the reduction adds one to the sum of the three counters.
\<close>

theorem getBestPracticeCounts_partition:
  "Counts.applied (getBestPracticeCounts ps) =
     length (filter (\<lambda>p. relevant p \<and> BestPractice.applied p) ps) \<and>
   notApplied (getBestPracticeCounts ps) =
     length (filter (\<lambda>p. relevant p \<and> \<not> BestPractice.applied p) ps) \<and>
   notRelevant (getBestPracticeCounts ps) =
     length (filter (\<lambda>p. \<not> relevant p) ps) \<and>
   totalReviewed (getBestPracticeCounts ps) =
     Counts.applied (getBestPracticeCounts ps) + notApplied (getBestPracticeCounts ps) +
     notRelevant (getBestPracticeCounts ps) \<and>
   totalReviewed (getBestPracticeCounts ps) = length ps \<and>
   (\<forall>acc p. Counts.applied (countStep acc p) + notApplied (countStep acc p) +
             notRelevant (countStep acc p) =
             Counts.applied acc + notApplied acc + notRelevant acc + 1)"
  using length_three_buckets [of ps]
  by (simp add: getBestPracticeCounts_def Let_def Counts.defs CountsWithTotal.defs
      foldl_countStep countStep_def)

text \<open>The theorem at the example: one best practice in each bucket.\<close>

theorem getBestPracticeCounts_partition_witness:
  "Counts.applied (getBestPracticeCounts (flattenedBestPractices exampleResults)) = 1 \<and>
   notApplied (getBestPracticeCounts (flattenedBestPractices exampleResults)) = 1 \<and>
   notRelevant (getBestPracticeCounts (flattenedBestPractices exampleResults)) = 1 \<and>
   totalReviewed (getBestPracticeCounts (flattenedBestPractices exampleResults)) = 3"
  using getBestPracticeCounts_partition [of "flattenedBestPractices exampleResults"]
  by (simp add: flattenedBestPractices_def flatMap_def exampleResults_def enhance_def
      exampleBP1_def exampleBP2_def exampleBP3_def BestPractice.defs)

section \<open>Properties of the handler of the get-more-details button\<close>

lemmas handler_defs =
  handleGetMoreDetails_def tryFinally_def tryCatch_def Let_def call_def
  setDetailsError_def setDetailsModalVisible_def setDetailsContent_def

text \<open>The three ways the handler can run, each with the world it ends in.\<close>

lemma handleGetMoreDetails_content:
  assumes "getMoreDetails api (selectedItems (state w)) (fileId props) (selectedIaCType props)
             (lensAliasArn props) (lensName props) (outputLanguage props) = Resolves result"
      and "content result = Some c" and "c \<noteq> []"
  shows "handleGetMoreDetails api props w =
    (Normal,
     w\<lparr> state := (state w)\<lparr> detailsError := (if truthy (error result) then error result else None),
                             detailsContent := c, detailsModalVisible := True \<rparr>,
        trace := trace w @
          [SetIsLoadingDetails True,
           GetMoreDetails (selectedItems (state w)) (fileId props) (selectedIaCType props)
             (lensAliasArn props) (lensName props) (outputLanguage props),
           SetIsLoadingDetails False] \<rparr>)"
  using assms by (simp add: handler_defs)

lemma handleGetMoreDetails_no_content:
  assumes "getMoreDetails api (selectedItems (state w)) (fileId props) (selectedIaCType props)
             (lensAliasArn props) (lensName props) (outputLanguage props) = Resolves result"
      and "\<not> truthy (content result)"
  shows "handleGetMoreDetails api props w =
    (Normal,
     w\<lparr> state := (state w)\<lparr> detailsError := (if truthy (error result) then error result else None) \<rparr>,
        trace := trace w @
          [SetIsLoadingDetails True,
           GetMoreDetails (selectedItems (state w)) (fileId props) (selectedIaCType props)
             (lensAliasArn props) (lensName props) (outputLanguage props),
           SetError (Some ''No content received from analysis. Please try again.''),
           SetIsLoadingDetails False] \<rparr>)"
  using assms by (simp add: handler_defs truthy_def split: option.splits)

lemma handleGetMoreDetails_rejects:
  assumes "getMoreDetails api (selectedItems (state w)) (fileId props) (selectedIaCType props)
             (lensAliasArn props) (lensName props) (outputLanguage props) = Rejects thrown"
  shows "handleGetMoreDetails api props w =
    (Normal,
     w\<lparr> state := (state w)\<lparr> detailsError := None \<rparr>,
        trace := trace w @
          [SetIsLoadingDetails True,
           GetMoreDetails (selectedItems (state w)) (fileId props) (selectedIaCType props)
             (lensAliasArn props) (lensName props) (outputLanguage props),
           SetError (Some (case thrown of ErrorObject message \<Rightarrow> message
                                        | OtherValue \<Rightarrow> ''Failed to get detailed analysis'')),
           SetIsLoadingDetails False] \<rparr>)"
  using assms by (simp add: handler_defs)

lemma handleGetMoreDetails_cases:
  obtains (content) result c where
      "getMoreDetails api (selectedItems (state w)) (fileId props) (selectedIaCType props)
         (lensAliasArn props) (lensName props) (outputLanguage props) = Resolves result"
      "content result = Some c" "c \<noteq> []"
  | (no_content) result where
      "getMoreDetails api (selectedItems (state w)) (fileId props) (selectedIaCType props)
         (lensAliasArn props) (lensName props) (outputLanguage props) = Resolves result"
      "\<not> truthy (content result)"
  | (rejects) thrown where
      "getMoreDetails api (selectedItems (state w)) (fileId props) (selectedIaCType props)
         (lensAliasArn props) (lensName props) (outputLanguage props) = Rejects thrown"
proof (cases "getMoreDetails api (selectedItems (state w)) (fileId props) (selectedIaCType props)
         (lensAliasArn props) (lensName props) (outputLanguage props)")
  case (Resolves result)
  then show ?thesis
    using content no_content by (cases "content result") (auto simp: truthy_def)
next
  case (Rejects thrown)
  then show ?thesis using rejects by blast
qed

text \<open>
  Claim C2. The handler calls \<open>getMoreDetails\<close> once, with the selected items, \<open>fileId\<close>,
  \<open>selectedIaCType\<close>, \<open>lensAliasArn\<close>, \<open>lensName\<close> and \<open>outputLanguage\<close>. When the call
  resolves with a non-empty \<open>content\<close>, the content is stored, the details modal is
  made visible and \<open>setError\<close> is not called; when it resolves without one, \<open>setError\<close>
  is called with the message 'No content received from analysis. Please try again.'
  and neither the modal's visibility nor the stored content changes.
\<close>

theorem handleGetMoreDetails_request_and_content:
  "filter isGetMoreDetails (newCalls w (snd (handleGetMoreDetails api props w))) =
     [GetMoreDetails (selectedItems (state w)) (fileId props) (selectedIaCType props)
        (lensAliasArn props) (lensName props) (outputLanguage props)] \<and>
   (\<forall>result.
      getMoreDetails api (selectedItems (state w)) (fileId props) (selectedIaCType props)
        (lensAliasArn props) (lensName props) (outputLanguage props) = Resolves result \<longrightarrow>
      (\<forall>c. content result = Some c \<and> c \<noteq> [] \<longrightarrow>
         detailsContent (state (snd (handleGetMoreDetails api props w))) = c \<and>
         detailsModalVisible (state (snd (handleGetMoreDetails api props w))) \<and>
         filter isSetError (newCalls w (snd (handleGetMoreDetails api props w))) = []) \<and>
      (\<not> truthy (content result) \<longrightarrow>
         filter isSetError (newCalls w (snd (handleGetMoreDetails api props w))) =
           [SetError (Some ''No content received from analysis. Please try again.'')] \<and>
         detailsModalVisible (state (snd (handleGetMoreDetails api props w))) =
           detailsModalVisible (state w) \<and>
         detailsContent (state (snd (handleGetMoreDetails api props w))) =
           detailsContent (state w)))"
proof (cases rule: handleGetMoreDetails_cases [of api w props])
  case (content result c)
  then show ?thesis
    by (simp add: handleGetMoreDetails_content [OF content] newCalls_def
        isGetMoreDetails_def isSetError_def truthy_def)
next
  case (no_content result)
  then show ?thesis
    by (auto simp add: handleGetMoreDetails_no_content [OF no_content] newCalls_def
        isGetMoreDetails_def isSetError_def truthy_def)
next
  case (rejects thrown)
  then show ?thesis
    by (simp add: handleGetMoreDetails_rejects [OF rejects] newCalls_def
        isGetMoreDetails_def isSetError_def)
qed

text \<open>The theorem at the example, for an API that returns content and for one that
  returns none.\<close>

theorem handleGetMoreDetails_request_and_content_witness:
  "getMoreDetails exampleApi (selectedItems (state exampleWorld)) (fileId exampleProps)
     (selectedIaCType exampleProps) (lensAliasArn exampleProps) (lensName exampleProps)
     (outputLanguage exampleProps) =
     Resolves \<lparr> content = Some ''Enable MFA as follows'', error = None \<rparr> \<and>
   detailsContent (state (snd (handleGetMoreDetails exampleApi exampleProps exampleWorld))) =
     ''Enable MFA as follows'' \<and>
   detailsModalVisible (state (snd (handleGetMoreDetails exampleApi exampleProps exampleWorld))) \<and>
   filter isGetMoreDetails
     (newCalls exampleWorld (snd (handleGetMoreDetails exampleApi exampleProps exampleWorld))) =
     [GetMoreDetails (selectedItems (state exampleWorld)) ''file-1''
        ''CloudFormation (.yaml) template''
        (Some ''arn:aws:wellarchitected::aws:lens/serverless'') ''Serverless Lens'' ''en''] \<and>
   getMoreDetails noContentApi (selectedItems (state exampleWorld)) (fileId exampleProps)
     (selectedIaCType exampleProps) (lensAliasArn exampleProps) (lensName exampleProps)
     (outputLanguage exampleProps) =
     Resolves \<lparr> content = None, error = Some ''The model returned nothing'' \<rparr> \<and>
   \<not> truthy (content \<lparr> content = None, error = Some ''The model returned nothing'' \<rparr>) \<and>
   filter isSetError
     (newCalls exampleWorld (snd (handleGetMoreDetails noContentApi exampleProps exampleWorld))) =
     [SetError (Some ''No content received from analysis. Please try again.'')] \<and>
   \<not> detailsModalVisible
       (state (snd (handleGetMoreDetails noContentApi exampleProps exampleWorld)))"
proof -
  have a: "getMoreDetails exampleApi (selectedItems (state exampleWorld)) (fileId exampleProps)
     (selectedIaCType exampleProps) (lensAliasArn exampleProps) (lensName exampleProps)
     (outputLanguage exampleProps) =
     Resolves \<lparr> content = Some ''Enable MFA as follows'', error = None \<rparr>"
    by (simp add: exampleApi_def)
  have b: "getMoreDetails noContentApi (selectedItems (state exampleWorld)) (fileId exampleProps)
     (selectedIaCType exampleProps) (lensAliasArn exampleProps) (lensName exampleProps)
     (outputLanguage exampleProps) =
     Resolves \<lparr> content = None, error = Some ''The model returned nothing'' \<rparr>"
    by (simp add: noContentApi_def)
  have v: "\<not> detailsModalVisible (state exampleWorld)"
    by (simp add: exampleWorld_def)
  have p: "fileId exampleProps = ''file-1''"
    "selectedIaCType exampleProps = ''CloudFormation (.yaml) template''"
    "lensAliasArn exampleProps = Some ''arn:aws:wellarchitected::aws:lens/serverless''"
    "lensName exampleProps = ''Serverless Lens''" "outputLanguage exampleProps = ''en''"
    by (simp_all add: exampleProps_def)
  from handleGetMoreDetails_request_and_content [of exampleWorld exampleApi exampleProps]
    handleGetMoreDetails_request_and_content [of exampleWorld noContentApi exampleProps]
    a b v
  show ?thesis
    by (simp add: truthy_def p)
qed

text \<open>
  Claim C3. However the API call settles, the handler completes normally (nothing
  thrown leaves it), its first call is \<open>setIsLoadingDetails(true)\<close>, its last call is
  \<open>setIsLoadingDetails(false)\<close>, and these are its only calls of the loading setter.
  When the API call rejects, \<open>setError\<close> is called once, with the message of the thrown
  value if it is an \<open>Error\<close> and with 'Failed to get detailed analysis' otherwise.
\<close>

theorem handleGetMoreDetails_loading_and_errors:
  "fst (handleGetMoreDetails api props w) = Normal \<and>
   take (length (trace w)) (trace (snd (handleGetMoreDetails api props w))) = trace w \<and>
   hd (newCalls w (snd (handleGetMoreDetails api props w))) = SetIsLoadingDetails True \<and>
   last (newCalls w (snd (handleGetMoreDetails api props w))) = SetIsLoadingDetails False \<and>
   filter isSetIsLoadingDetails (newCalls w (snd (handleGetMoreDetails api props w))) =
     [SetIsLoadingDetails True, SetIsLoadingDetails False] \<and>
   (\<forall>thrown.
      getMoreDetails api (selectedItems (state w)) (fileId props) (selectedIaCType props)
        (lensAliasArn props) (lensName props) (outputLanguage props) = Rejects thrown \<longrightarrow>
      filter isSetError (newCalls w (snd (handleGetMoreDetails api props w))) =
        [SetError (Some (case thrown of
                           ErrorObject message \<Rightarrow> message
                         | OtherValue \<Rightarrow> ''Failed to get detailed analysis''))])"
proof (cases rule: handleGetMoreDetails_cases [of api w props])
  case (content result c)
  then show ?thesis
    by (simp add: handleGetMoreDetails_content [OF content] newCalls_def
        isSetIsLoadingDetails_def)
next
  case (no_content result)
  then show ?thesis
    by (simp add: handleGetMoreDetails_no_content [OF no_content] newCalls_def
        isSetIsLoadingDetails_def)
next
  case (rejects thrown)
  then show ?thesis
    by (simp add: handleGetMoreDetails_rejects [OF rejects] newCalls_def
        isSetIsLoadingDetails_def isSetError_def)
qed

text \<open>The theorem at the example, for an API call that rejects with an \<open>Error\<close>.\<close>

theorem handleGetMoreDetails_loading_and_errors_witness:
  "getMoreDetails failingApi (selectedItems (state exampleWorld)) (fileId exampleProps)
     (selectedIaCType exampleProps) (lensAliasArn exampleProps) (lensName exampleProps)
     (outputLanguage exampleProps) = Rejects (ErrorObject ''Network Error'') \<and>
   fst (handleGetMoreDetails failingApi exampleProps exampleWorld) = Normal \<and>
   last (newCalls exampleWorld (snd (handleGetMoreDetails failingApi exampleProps exampleWorld)))
     = SetIsLoadingDetails False \<and>
   filter isSetError
     (newCalls exampleWorld (snd (handleGetMoreDetails failingApi exampleProps exampleWorld))) =
     [SetError (Some ''Network Error'')]"
proof -
  have a: "getMoreDetails failingApi (selectedItems (state exampleWorld)) (fileId exampleProps)
     (selectedIaCType exampleProps) (lensAliasArn exampleProps) (lensName exampleProps)
     (outputLanguage exampleProps) = Rejects (ErrorObject ''Network Error'')"
    by (simp add: failingApi_def)
  from handleGetMoreDetails_loading_and_errors [of failingApi exampleProps exampleWorld] a
  show ?thesis by simp
qed

section \<open>Properties of the events of the user interface\<close>

lemma handleGetMoreDetailsUntilAwait_eq:
  "handleGetMoreDetailsUntilAwait props w =
     w\<lparr> state := (state w)\<lparr> detailsError := None \<rparr>,
        trace := trace w @
          [SetIsLoadingDetails True,
           GetMoreDetails (selectedItems (state w)) (fileId props) (selectedIaCType props)
             (lensAliasArn props) (lensName props) (outputLanguage props)],
        inFlight := Suc (inFlight w) \<rparr>"
  by (simp add: handleGetMoreDetailsUntilAwait_def Let_def call_def setDetailsError_def)

text \<open>
  The handler as one execution is its first half followed by its second half with the
  outcome of the call.
\<close>

lemma handleGetMoreDetails_halves:
  "handleGetMoreDetails api props w =
     handleGetMoreDetailsAfterAwait
       (getMoreDetails api (selectedItems (state w)) (fileId props) (selectedIaCType props)
          (lensAliasArn props) (lensName props) (outputLanguage props))
       (handleGetMoreDetailsUntilAwait props w)"
  by (simp add: handleGetMoreDetailsAfterAwait_def handleGetMoreDetailsUntilAwait_eq
      handler_defs split: Outcome.splits option.splits)

lemma newCalls_handleGetMoreDetailsUntilAwait:
  "newCalls w (handleGetMoreDetailsUntilAwait props w) =
     [SetIsLoadingDetails True,
      GetMoreDetails (selectedItems (state w)) (fileId props) (selectedIaCType props)
        (lensAliasArn props) (lensName props) (outputLanguage props)]"
  by (simp add: handleGetMoreDetailsUntilAwait_eq newCalls_def)

lemma newCalls_handleGenerateIacClick:
  "newCalls w (snd (handleGenerateIacClick w)) = [OnGenerateIacDocument]"
  by (simp add: handleGenerateIacClick_def newCalls_def call_def)

lemma handleCancelGeneration_eq:
  "handleCancelGeneration api w =
     (Normal, w\<lparr>trace := trace w @
        (case cancelIaCGeneration api of
           Resolves u \<Rightarrow> [CancelIaCGeneration]
         | Rejects thrown \<Rightarrow>
             [CancelIaCGeneration, ConsoleError ''Failed to cancel IaC generation:'' thrown])\<rparr>)"
  by (simp add: handleCancelGeneration_def tryCatch_def call_def Let_def split: Outcome.splits)

lemma newCalls_handleCancelGeneration:
  "newCalls w (snd (handleCancelGeneration api w)) =
     (case cancelIaCGeneration api of
           Resolves u \<Rightarrow> [CancelIaCGeneration]
         | Rejects thrown \<Rightarrow>
             [CancelIaCGeneration, ConsoleError ''Failed to cancel IaC generation:'' thrown])"
  by (simp add: handleCancelGeneration_eq newCalls_def)

lemma newCalls_handleAiChatClick:
  "newCalls w (snd (handleAiChatClick item w)) = [OpenChatWithSupportPrompt (chatPrompt item)]"
  by (simp add: handleAiChatClick_def newCalls_def call_def)

lemma newCalls_same: "newCalls w w = []"
  by (simp add: newCalls_def)

lemma newCalls_state_update:
  "newCalls w (w\<lparr>state := st\<rparr>) = []"
  by (simp add: newCalls_def)

lemma newCalls_call: "newCalls w (call e w) = [e]"
  by (simp add: newCalls_def call_def)

text \<open>Which handler a UI event runs, if any.\<close>

lemma uiEvent_cases:
  obtains
    (nothing) "uiEvent api collection props ev w = (Normal, w)"
  | (state_only) st where "uiEvent api collection props ev w = (Normal, w\<lparr>state := st\<rparr>)"
  | (clear_filter) "uiEvent api collection props ev w = (Normal, call SetPropertyFiltering w)"
  | (header) b where "b \<in> set (headerActions props (state w))"
      "\<not> disabled b" "\<not> loading b"
      "uiEvent api collection props ev w = runHandler api props (onClick b) w"
  | (cell) k t b where "ev = ClickRecommendationsButton k"
      "k < length (tableRows collection props)"
      "columnShown (state w) ''recommendations''"
      "recommendationsCell (tableRows collection props ! k) = CellWithButton t b"
      "uiEvent api collection props ev w = runHandler api props (onClick b) w"
proof (cases ev)
  case (ClickHeaderAction k)
  show ?thesis
  proof (cases "k < length (headerActions props (state w))")
    case True
    let ?b = "headerActions props (state w) ! k"
    have mem: "?b \<in> set (headerActions props (state w))"
      using True by (rule nth_mem)
    show ?thesis
    proof (cases "disabled ?b \<or> loading ?b")
      case True
      with ClickHeaderAction \<open>k < length (headerActions props (state w))\<close>
      have "uiEvent api collection props ev w = (Normal, w)"
        by (simp add: uiEvent_def Let_def clickButton_def)
      then show ?thesis by (rule nothing)
    next
      case False
      with ClickHeaderAction \<open>k < length (headerActions props (state w))\<close>
      have "uiEvent api collection props ev w = runHandler api props (onClick ?b) w"
        by (simp add: uiEvent_def Let_def clickButton_def)
      with mem False show ?thesis by (intro header [of ?b]) simp_all
    qed
  next
    case False
    with ClickHeaderAction have "uiEvent api collection props ev w = (Normal, w)"
      by (simp add: uiEvent_def Let_def)
    then show ?thesis by (rule nothing)
  qed
next
  case (ClickRecommendationsButton k)
  let ?rows = "tableRows collection props"
  show ?thesis
  proof (cases "k < length ?rows \<and> columnShown (state w) ''recommendations''")
    case False
    with ClickRecommendationsButton have "uiEvent api collection props ev w = (Normal, w)"
      by (auto simp add: uiEvent_def Let_def)
    then show ?thesis by (rule nothing)
  next
    case True
    show ?thesis
    proof (cases "recommendationsCell (?rows ! k)")
      case (CellText t)
      with ClickRecommendationsButton True
      have "uiEvent api collection props ev w = (Normal, w)"
        by (simp add: uiEvent_def Let_def)
      then show ?thesis by (rule nothing)
    next
      case (CellWithButton t b)
      then have "\<not> disabled b" "\<not> loading b"
        by (auto simp add: recommendationsCell_def split: if_splits)
      with ClickRecommendationsButton CellWithButton True
      have "uiEvent api collection props ev w = runHandler api props (onClick b) w"
        by (simp add: uiEvent_def Let_def clickButton_def)
      with ClickRecommendationsButton CellWithButton True show ?thesis
        by (intro cell [of k t b]) simp_all
    qed
  qed
next
  case (SelectionChange items)
  then have "uiEvent api collection props ev w =
      (Normal, w\<lparr>state := (state w)\<lparr>selectedItems := items\<rparr>\<rparr>)"
    by (simp add: uiEvent_def setSelectedItems_def)
  then show ?thesis by (rule state_only)
next
  case DismissDetailsModal
  then have "uiEvent api collection props ev w =
      (Normal, w\<lparr>state := (state w)\<lparr>detailsModalVisible := False\<rparr>\<rparr>)"
    by (simp add: uiEvent_def setDetailsModalVisible_def)
  then show ?thesis by (rule state_only)
next
  case (ConfirmPreferences chosenSize chosenContent)
  then have "\<exists>st. uiEvent api collection props ev w = (Normal, w\<lparr>state := st\<rparr>)"
    by (simp add: uiEvent_def setPreferences_def) (rule exI, rule refl)
  then show ?thesis using state_only by blast
next
  case ClearFilter
  then have "uiEvent api collection props ev w = (Normal, call SetPropertyFiltering w)"
    by (simp add: uiEvent_def)
  then show ?thesis by (rule clear_filter)
qed

lemma cell_button_handler:
  "recommendationsCell item = CellWithButton t b \<Longrightarrow> onClick b = HandleAiChatClick item"
  by (auto simp add: recommendationsCell_def split: if_splits)

lemma header_button_cases:
  assumes "b \<in> set (headerActions props st)"
  obtains
    (details) "onClick b = HandleGetMoreDetails"
      "disabled b = (length (selectedItems st) = 0 \<or> isLoadingDetails props)"
      "loading b = isLoadingDetails props"
  | (generate) "onClick b = HandleGenerateIacClick"
      "disabled b = (isDownloading props \<or> isImplementing props \<or>
                     \<not> startsWith (uploadedFileType props) ''image/'')"
      "loading b = isImplementing props"
  | (cancel) "onClick b = HandleCancelGeneration" "isImplementing props"
  | (download) "onClick b = OnDownloadRecommendationsProp"
      "disabled b = (isDownloading props \<or> isImplementing props)"
  using assms by (auto simp add: headerActions_def split: if_splits)

lemma newCalls_runHandler:
  assumes "e \<in> set (newCalls w (snd (runHandler api props h w)))"
  shows "case h of
        HandleGetMoreDetails \<Rightarrow>
          e = SetIsLoadingDetails True \<or>
          e = GetMoreDetails (selectedItems (state w)) (fileId props) (selectedIaCType props)
                (lensAliasArn props) (lensName props) (outputLanguage props)
      | HandleGenerateIacClick \<Rightarrow> e = OnGenerateIacDocument
      | HandleCancelGeneration \<Rightarrow>
          e = CancelIaCGeneration \<or> (\<exists>m t. e = ConsoleError m t)
      | OnDownloadRecommendationsProp \<Rightarrow> e = OnDownloadRecommendations
      | HandleAiChatClick item \<Rightarrow> e = OpenChatWithSupportPrompt (chatPrompt item)"
proof (cases h)
  case HandleGetMoreDetails
  with assms show ?thesis
    by (auto simp add: runHandler_def newCalls_handleGetMoreDetailsUntilAwait)
next
  case HandleGenerateIacClick
  with assms show ?thesis by (simp add: runHandler_def newCalls_handleGenerateIacClick)
next
  case HandleCancelGeneration
  with assms show ?thesis
    by (auto simp add: runHandler_def newCalls_handleCancelGeneration split: Outcome.splits)
next
  case OnDownloadRecommendationsProp
  with assms show ?thesis by (simp add: runHandler_def newCalls_call)
next
  case (HandleAiChatClick item)
  with assms show ?thesis by (simp add: runHandler_def newCalls_handleAiChatClick)
qed

text \<open>Where a call made by a UI event comes from.\<close>

lemma uiEvent_call_origin:
  assumes "e \<in> set (newCalls w (snd (uiEvent api collection props ev w)))"
  obtains
    (clear_filter) "e = SetPropertyFiltering"
  | (header) b where "b \<in> set (headerActions props (state w))"
      "\<not> disabled b" "\<not> loading b"
      "e \<in> set (newCalls w (snd (runHandler api props (onClick b) w)))"
  | (cell) k where "ev = ClickRecommendationsButton k"
      "k < length (tableRows collection props)"
      "columnShown (state w) ''recommendations''"
      "relevant (tableRows collection props ! k)"
      "\<not> BestPractice.applied (tableRows collection props ! k)"
      "truthy (recommendations (tableRows collection props ! k))"
      "e = OpenChatWithSupportPrompt (chatPrompt (tableRows collection props ! k))"
proof (cases rule: uiEvent_cases [of api collection props ev w])
  case nothing
  with assms show ?thesis by (simp add: newCalls_same)
next
  case (state_only st)
  with assms show ?thesis by (simp add: newCalls_state_update)
next
  case clear_filter
  with assms have "e = SetPropertyFiltering" by (simp add: newCalls_call)
  then show ?thesis by (rule that(1))
next
  case (header b)
  with assms show ?thesis by (intro that(2) [of b]) simp_all
next
  case (cell k t b)
  let ?item = "tableRows collection props ! k"
  from cell(4) have h: "onClick b = HandleAiChatClick ?item" by (rule cell_button_handler)
  from cell(4) have "relevant ?item" "\<not> BestPractice.applied ?item"
    "truthy (recommendations ?item)"
    by (auto simp add: recommendationsCell_def split: if_splits)
  moreover from assms cell h have "e = OpenChatWithSupportPrompt (chatPrompt ?item)"
    using newCalls_runHandler [of e w api props "HandleAiChatClick ?item"] by simp
  ultimately show ?thesis using cell(1,2,3) by (intro that(3) [of k])
qed

text \<open>
  The loading flag over a run: the value last reported after more calls, and calls
  that leave it alone.
\<close>

lemma lastLoading_append:
  "lastLoading (calls @ es) =
     foldl (\<lambda>flag e. case e of SetIsLoadingDetails v \<Rightarrow> v | _ \<Rightarrow> flag) (lastLoading calls) es"
  by (simp add: lastLoading_def)

lemma foldl_no_loading:
  "\<forall>e \<in> set es. \<not> isSetIsLoadingDetails e \<Longrightarrow>
     foldl (\<lambda>flag e. case e of SetIsLoadingDetails v \<Rightarrow> v | _ \<Rightarrow> flag) b es = b"
  by (induction es arbitrary: b) (auto simp add: isSetIsLoadingDetails_def split: Effect.splits)

lemma lastLoading_quiet:
  assumes "trace w' = trace w @ es" and "\<forall>e \<in> set es. \<not> isSetIsLoadingDetails e"
  shows "lastLoading (trace w') = lastLoading (trace w)"
  using assms by (simp add: lastLoading_append foldl_no_loading)

text \<open>
  A UI event either starts a details request, which it does only while the
  \<open>isLoadingDetails\<close> prop is unset, or it leaves the loading flag and the requests in
  flight alone and makes no details request.
\<close>

lemma uiEvent_effect:
  obtains
    (request) "\<not> isLoadingDetails props"
      "snd (uiEvent api collection props ev w) = handleGetMoreDetailsUntilAwait props w"
  | (quiet) "inFlight (snd (uiEvent api collection props ev w)) = inFlight w"
      "lastLoading (trace (snd (uiEvent api collection props ev w))) = lastLoading (trace w)"
      "\<forall>e \<in> set (newCalls w (snd (uiEvent api collection props ev w))). \<not> isGetMoreDetails e"
proof (cases rule: uiEvent_cases [of api collection props ev w])
  case nothing
  then show ?thesis by (intro quiet) (simp_all add: newCalls_same)
next
  case (state_only st)
  then show ?thesis by (intro quiet) (simp_all add: newCalls_state_update)
next
  case clear_filter
  then show ?thesis
    by (intro quiet)
      (simp_all add: newCalls_def call_def lastLoading_append isGetMoreDetails_def)
next
  case (header b)
  from header(1) show ?thesis
  proof (cases rule: header_button_cases)
    case details
    with header show ?thesis by (intro request) (simp_all add: runHandler_def)
  next
    case generate
    with header show ?thesis
      by (intro quiet)
        (simp_all add: runHandler_def handleGenerateIacClick_def newCalls_def call_def
          lastLoading_append isGetMoreDetails_def)
  next
    case cancel
    with header show ?thesis
      by (intro quiet)
        (simp_all add: runHandler_def handleCancelGeneration_eq newCalls_def
          lastLoading_append isGetMoreDetails_def split: Outcome.splits)
  next
    case download
    with header show ?thesis
      by (intro quiet)
        (simp_all add: runHandler_def newCalls_def call_def lastLoading_append
          isGetMoreDetails_def)
  qed
next
  case (cell k t b)
  from cell(4) have "onClick b = HandleAiChatClick (tableRows collection props ! k)"
    by (rule cell_button_handler)
  with cell show ?thesis
    by (intro quiet)
      (simp_all add: runHandler_def handleAiChatClick_def newCalls_def call_def
        lastLoading_append isGetMoreDetails_def)
qed

lemma handleGetMoreDetailsAfterAwait_effect:
  "inFlight (snd (handleGetMoreDetailsAfterAwait outcome w)) = inFlight w - 1"
  "\<not> lastLoading (trace (snd (handleGetMoreDetailsAfterAwait outcome w)))"
  "\<forall>e \<in> set (newCalls w (snd (handleGetMoreDetailsAfterAwait outcome w))). \<not> isGetMoreDetails e"
  by (auto simp add: handleGetMoreDetailsAfterAwait_def tryFinally_def tryCatch_def Let_def
      call_def setDetailsError_def setDetailsModalVisible_def setDetailsContent_def
      lastLoading_append newCalls_def isGetMoreDetails_def
      split: Outcome.splits option.splits)

lemma feedBack_step_invariant:
  assumes "inFlight w \<le> 1" and "lastLoading (trace w) = (inFlight w = 1)"
      and "isLoadingDetails props = lastLoading (trace w)"
  shows "inFlight (snd (feedBack (step api s (props, w)))) \<le> 1 \<and>
         lastLoading (trace (snd (feedBack (step api s (props, w))))) =
           (inFlight (snd (feedBack (step api s (props, w)))) = 1) \<and>
         isLoadingDetails (fst (feedBack (step api s (props, w)))) =
           lastLoading (trace (snd (feedBack (step api s (props, w)))))"
proof (cases s)
  case (UserDoes collection ev)
  show ?thesis
  proof (cases rule: uiEvent_effect [of props api collection ev w])
    case request
    with assms have "inFlight w = 0" by simp
    with request UserDoes show ?thesis
      by (simp add: step_def feedBack_def handleGetMoreDetailsUntilAwait_eq lastLoading_append)
  next
    case quiet
    with assms UserDoes show ?thesis by (simp add: step_def feedBack_def)
  qed
next
  case (RequestSettles outcome)
  show ?thesis
  proof (cases "inFlight w = 0")
    case True
    with assms RequestSettles show ?thesis by (simp add: step_def feedBack_def)
  next
    case False
    with assms have "inFlight w = 1" by simp
    with RequestSettles show ?thesis
      by (simp add: step_def feedBack_def handleGetMoreDetailsAfterAwait_effect)
  qed
next
  case (ParentRenders props')
  with assms show ?thesis by (simp add: step_def feedBack_def)
qed

lemma runFedBack_snoc:
  "runFedBack api (steps @ [s]) c = feedBack (step api s (runFedBack api steps c))"
  by (simp add: runFedBack_def)

lemma runFedBack_invariant:
  assumes "inFlight w0 = 0" and "\<not> lastLoading (trace w0)"
  shows "inFlight (snd (runFedBack api steps (props0, w0))) \<le> 1 \<and>
         lastLoading (trace (snd (runFedBack api steps (props0, w0)))) =
           (inFlight (snd (runFedBack api steps (props0, w0))) = 1) \<and>
         isLoadingDetails (fst (runFedBack api steps (props0, w0))) =
           lastLoading (trace (snd (runFedBack api steps (props0, w0))))"
proof (induction steps rule: rev_induct)
  case Nil
  with assms show ?case by (simp add: runFedBack_def feedBack_def)
next
  case (snoc s steps)
  obtain props w where c: "runFedBack api steps (props0, w0) = (props, w)"
    by (cases "runFedBack api steps (props0, w0)")
  with snoc have "inFlight w \<le> 1" "lastLoading (trace w) = (inFlight w = 1)"
    "isLoadingDetails props = lastLoading (trace w)" by simp_all
  from feedBack_step_invariant [OF this] c show ?case
    by (simp add: runFedBack_snoc)
qed

lemma step_request_needs_flag_unset:
  assumes "e \<in> set (newCalls w (snd (step api s (props, w))))" and "isGetMoreDetails e"
  shows "\<not> isLoadingDetails props"
proof (cases s)
  case (UserDoes collection ev)
  show ?thesis
  proof (cases rule: uiEvent_effect [of props api collection ev w])
    case request
    then show ?thesis by simp
  next
    case quiet
    with assms UserDoes show ?thesis by (simp add: step_def)
  qed
next
  case (RequestSettles outcome)
  with assms show ?thesis
    using handleGetMoreDetailsAfterAwait_effect(3) [of w outcome]
    by (auto simp add: step_def newCalls_same split: if_splits)
next
  case (ParentRenders props')
  with assms show ?thesis by (simp add: step_def newCalls_same)
qed

lemma click_details_enabled:
  assumes "selectedItems (state w) \<noteq> []" and "\<not> isLoadingDetails props"
  shows "uiEvent api collection props (ClickHeaderAction 0) w =
           (Normal, handleGetMoreDetailsUntilAwait props w)"
  using assms
  by (simp add: uiEvent_def headerActions_def clickButton_def runHandler_def Let_def)

lemma example_first_click:
  "run exampleApi [UserDoes (\<lambda>rows. rows) (ClickHeaderAction 0)] (exampleProps, exampleWorld) =
     (exampleProps, handleGetMoreDetailsUntilAwait exampleProps exampleWorld)"
proof -
  have "selectedItems (state exampleWorld) \<noteq> []" "\<not> isLoadingDetails exampleProps"
    by (simp_all add: exampleWorld_def exampleProps_def)
  then show ?thesis
    by (simp add: run_def step_def click_details_enabled)
qed

lemma example_second_click:
  "run exampleApi [UserDoes (\<lambda>rows. rows) (ClickHeaderAction 0),
                   UserDoes (\<lambda>rows. rows) (ClickHeaderAction 0)] (exampleProps, exampleWorld) =
     (exampleProps,
      handleGetMoreDetailsUntilAwait exampleProps
        (handleGetMoreDetailsUntilAwait exampleProps exampleWorld))"
proof -
  have a: "selectedItems (state exampleWorld) \<noteq> []" "\<not> isLoadingDetails exampleProps"
    by (simp_all add: exampleWorld_def exampleProps_def)
  then have b:
    "selectedItems (state (handleGetMoreDetailsUntilAwait exampleProps exampleWorld)) \<noteq> []"
    by (simp add: handleGetMoreDetailsUntilAwait_eq)
  from a b show ?thesis
    by (simp add: run_def step_def click_details_enabled)
qed

text \<open>
  Claim C4 says that \<open>getMoreDetails\<close> is never invoked while a previous details request
  is still in flight. Under a parent that leaves the prop \<open>isLoadingDetails\<close> at
  \<open>false\<close>, as in the example, a first click on the button puts a request in flight,
  and a second click, before that request has settled, invokes \<open>getMoreDetails\<close> again.
\<close>

theorem getMoreDetails_while_in_flight_counterexample:
  "inFlight (snd (run exampleApi [UserDoes (\<lambda>rows. rows) (ClickHeaderAction 0)]
                    (exampleProps, exampleWorld))) = 1 \<and>
   filter isGetMoreDetails
     (newCalls
        (snd (run exampleApi [UserDoes (\<lambda>rows. rows) (ClickHeaderAction 0)]
                (exampleProps, exampleWorld)))
        (snd (run exampleApi [UserDoes (\<lambda>rows. rows) (ClickHeaderAction 0),
                              UserDoes (\<lambda>rows. rows) (ClickHeaderAction 0)]
                (exampleProps, exampleWorld)))) =
     [GetMoreDetails (selectedItems (state exampleWorld)) ''file-1''
        ''CloudFormation (.yaml) template''
        (Some ''arn:aws:wellarchitected::aws:lens/serverless'') ''Serverless Lens'' ''en'']"
proof -
  have p: "fileId exampleProps = ''file-1''"
    "selectedIaCType exampleProps = ''CloudFormation (.yaml) template''"
    "lensAliasArn exampleProps = Some ''arn:aws:wellarchitected::aws:lens/serverless''"
    "lensName exampleProps = ''Serverless Lens''" "outputLanguage exampleProps = ''en''"
    by (simp_all add: exampleProps_def)
  have i: "inFlight exampleWorld = 0" by (simp add: exampleWorld_def)
  have s: "selectedItems (state (handleGetMoreDetailsUntilAwait exampleProps exampleWorld)) =
      selectedItems (state exampleWorld)"
    by (simp add: handleGetMoreDetailsUntilAwait_eq)
  have "inFlight (handleGetMoreDetailsUntilAwait exampleProps exampleWorld) = 1"
    using i by (simp add: handleGetMoreDetailsUntilAwait_eq)
  then show ?thesis
    by (simp add: example_first_click example_second_click
        newCalls_handleGetMoreDetailsUntilAwait isGetMoreDetails_def p s)
qed

text \<open>
  Claim C4, amended. The header has one button bound to the get-more-details handler,
  and it is disabled when no row is selected or the prop \<open>isLoadingDetails\<close> is set. So
  whatever the user does, \<open>getMoreDetails\<close> is invoked only with a selection that is not
  empty and only while the prop \<open>isLoadingDetails\<close> is unset, and the call carries that
  selection. Under a parent that feeds the loading flag back (after every step it
  renders the component with \<open>isLoadingDetails\<close> set to the value last given to
  \<open>setIsLoadingDetails\<close>), from a state with no request in flight and the flag unset,
  at most one request is in flight at any time, and \<open>getMoreDetails\<close> is invoked only
  while none is.
\<close>

theorem getMoreDetails_only_when_enabled:
  "filter (\<lambda>b. onClick b = HandleGetMoreDetails) (headerActions props st) =
     [\<lparr> onClick = HandleGetMoreDetails, loading = isLoadingDetails props,
        disabled = (length (selectedItems st) = 0 \<or> isLoadingDetails props) \<rparr>] \<and>
   (\<forall>ev e. e \<in> set (newCalls w (snd (uiEvent api collection props ev w))) \<longrightarrow>
      isGetMoreDetails e \<longrightarrow>
      selectedItems (state w) \<noteq> [] \<and> \<not> isLoadingDetails props \<and>
      e = GetMoreDetails (selectedItems (state w)) (fileId props) (selectedIaCType props)
            (lensAliasArn props) (lensName props) (outputLanguage props)) \<and>
   (inFlight w0 = 0 \<and> \<not> lastLoading (trace w0) \<longrightarrow>
      (\<forall>steps s e.
         inFlight (snd (runFedBack api steps (props0, w0))) \<le> 1 \<and>
         (e \<in> set (newCalls (snd (runFedBack api steps (props0, w0)))
                     (snd (step api s (runFedBack api steps (props0, w0))))) \<longrightarrow>
          isGetMoreDetails e \<longrightarrow>
          inFlight (snd (runFedBack api steps (props0, w0))) = 0)))"
proof (intro conjI allI impI)
  show "filter (\<lambda>b. onClick b = HandleGetMoreDetails) (headerActions props st) =
     [\<lparr> onClick = HandleGetMoreDetails, loading = isLoadingDetails props,
        disabled = (length (selectedItems st) = 0 \<or> isLoadingDetails props) \<rparr>]"
    by (simp add: headerActions_def)
next
  fix ev e
  assume e: "e \<in> set (newCalls w (snd (uiEvent api collection props ev w)))"
    and g: "isGetMoreDetails e"
  from e have "selectedItems (state w) \<noteq> [] \<and> \<not> isLoadingDetails props \<and>
      e = GetMoreDetails (selectedItems (state w)) (fileId props) (selectedIaCType props)
            (lensAliasArn props) (lensName props) (outputLanguage props)"
  proof (cases rule: uiEvent_call_origin)
    case clear_filter
    with g show ?thesis by (simp add: isGetMoreDetails_def)
  next
    case (header b)
    from header(1) show ?thesis
    proof (cases rule: header_button_cases)
      case details
      with header g newCalls_runHandler [of e w api props HandleGetMoreDetails]
      show ?thesis by (auto simp add: isGetMoreDetails_def)
    next
      case generate
      with header g newCalls_runHandler [of e w api props HandleGenerateIacClick]
      show ?thesis by (auto simp add: isGetMoreDetails_def)
    next
      case cancel
      with header g newCalls_runHandler [of e w api props HandleCancelGeneration]
      show ?thesis by (auto simp add: isGetMoreDetails_def)
    next
      case download
      with header g newCalls_runHandler [of e w api props OnDownloadRecommendationsProp]
      show ?thesis by (auto simp add: isGetMoreDetails_def)
    qed
  next
    case (cell k)
    with g show ?thesis by (simp add: isGetMoreDetails_def)
  qed
  then show "selectedItems (state w) \<noteq> []" "\<not> isLoadingDetails props"
    "e = GetMoreDetails (selectedItems (state w)) (fileId props) (selectedIaCType props)
            (lensAliasArn props) (lensName props) (outputLanguage props)"
    by simp_all
next
  fix steps s e
  assume start: "inFlight w0 = 0 \<and> \<not> lastLoading (trace w0)"
  then have inv: "inFlight (snd (runFedBack api steps (props0, w0))) \<le> 1 \<and>
         lastLoading (trace (snd (runFedBack api steps (props0, w0)))) =
           (inFlight (snd (runFedBack api steps (props0, w0))) = 1) \<and>
         isLoadingDetails (fst (runFedBack api steps (props0, w0))) =
           lastLoading (trace (snd (runFedBack api steps (props0, w0))))"
    using runFedBack_invariant [of w0 api steps props0] by simp
  then show "inFlight (snd (runFedBack api steps (props0, w0))) \<le> 1" by simp
  assume e: "e \<in> set (newCalls (snd (runFedBack api steps (props0, w0)))
                     (snd (step api s (runFedBack api steps (props0, w0)))))"
    and g: "isGetMoreDetails e"
  obtain p w1 where c: "runFedBack api steps (props0, w0) = (p, w1)"
    by (cases "runFedBack api steps (props0, w0)")
  with e g have "\<not> isLoadingDetails p"
    using step_request_needs_flag_unset [of e w1 api s p] by simp
  with inv c show "inFlight (snd (runFedBack api steps (props0, w0))) = 0"
    by (auto simp add: le_Suc_eq)
qed

text \<open>
  The theorem at the example: a click on the first header button with one row selected,
  and the run of that click under a parent that feeds the flag back.
\<close>

theorem getMoreDetails_only_when_enabled_witness:
  "inFlight exampleWorld = 0 \<and> \<not> lastLoading (trace exampleWorld) \<and>
   GetMoreDetails (selectedItems (state exampleWorld)) (fileId exampleProps)
     (selectedIaCType exampleProps) (lensAliasArn exampleProps) (lensName exampleProps)
     (outputLanguage exampleProps)
     \<in> set (newCalls exampleWorld
               (snd (uiEvent exampleApi (\<lambda>rows. rows) exampleProps (ClickHeaderAction 0)
                       exampleWorld))) \<and>
   GetMoreDetails (selectedItems (state exampleWorld)) (fileId exampleProps)
     (selectedIaCType exampleProps) (lensAliasArn exampleProps) (lensName exampleProps)
     (outputLanguage exampleProps)
     \<in> set (newCalls (snd (runFedBack exampleApi [] (exampleProps, exampleWorld)))
               (snd (step exampleApi (UserDoes (\<lambda>rows. rows) (ClickHeaderAction 0))
                       (runFedBack exampleApi [] (exampleProps, exampleWorld))))) \<and>
   isGetMoreDetails
     (GetMoreDetails (selectedItems (state exampleWorld)) (fileId exampleProps)
        (selectedIaCType exampleProps) (lensAliasArn exampleProps) (lensName exampleProps)
        (outputLanguage exampleProps)) \<and>
   selectedItems (state exampleWorld) \<noteq> [] \<and> \<not> isLoadingDetails exampleProps \<and>
   inFlight (snd (runFedBack exampleApi [] (exampleProps, exampleWorld))) = 0 \<and>
   inFlight (snd (runFedBack exampleApi [UserDoes (\<lambda>rows. rows) (ClickHeaderAction 0)]
                    (exampleProps, exampleWorld))) \<le> 1"
proof -
  let ?e = "GetMoreDetails (selectedItems (state exampleWorld)) (fileId exampleProps)
     (selectedIaCType exampleProps) (lensAliasArn exampleProps) (lensName exampleProps)
     (outputLanguage exampleProps)"
  have a: "selectedItems (state exampleWorld) \<noteq> []" "\<not> isLoadingDetails exampleProps"
    "inFlight exampleWorld = 0" "\<not> lastLoading (trace exampleWorld)"
    by (simp_all add: exampleWorld_def exampleProps_def lastLoading_def)
  have fb: "runFedBack exampleApi [] (exampleProps, exampleWorld) = (exampleProps, exampleWorld)"
    using a by (simp add: runFedBack_def feedBack_def exampleProps_def)
  have m: "?e \<in> set (newCalls exampleWorld
               (snd (uiEvent exampleApi (\<lambda>rows. rows) exampleProps (ClickHeaderAction 0)
                       exampleWorld)))"
    using a by (simp add: click_details_enabled newCalls_handleGetMoreDetailsUntilAwait)
  then have m': "?e \<in> set (newCalls (snd (runFedBack exampleApi [] (exampleProps, exampleWorld)))
               (snd (step exampleApi (UserDoes (\<lambda>rows. rows) (ClickHeaderAction 0))
                       (runFedBack exampleApi [] (exampleProps, exampleWorld)))))"
    by (simp add: fb step_def)
  have g: "isGetMoreDetails ?e" by (simp add: isGetMoreDetails_def)
  note t = getMoreDetails_only_when_enabled
    [of exampleProps "state exampleWorld" exampleWorld exampleApi "\<lambda>rows. rows" exampleWorld
       exampleProps]
  from t a(3,4) m' g
  have "inFlight (snd (runFedBack exampleApi [] (exampleProps, exampleWorld))) = 0" by blast
  moreover from t a(3,4)
  have "inFlight (snd (runFedBack exampleApi [UserDoes (\<lambda>rows. rows) (ClickHeaderAction 0)]
                    (exampleProps, exampleWorld))) \<le> 1" by blast
  moreover from t m g
  have "selectedItems (state exampleWorld) \<noteq> [] \<and> \<not> isLoadingDetails exampleProps" by blast
  ultimately show ?thesis using a(3,4) m m' g by simp
qed

text \<open>
  Claim C6. The header has one button bound to the generate-document handler, and it is
  disabled when \<open>uploadedFileType\<close> does not start with 'image/' or when \<open>isDownloading\<close>
  or \<open>isImplementing\<close> is set. So whatever the user does, \<open>onGenerateIacDocument\<close> is
  called only for an image upload and only while neither a download nor a generation is
  in progress.
\<close>

theorem generateIac_only_when_enabled:
  "filter (\<lambda>b. onClick b = HandleGenerateIacClick) (headerActions props st) =
     [\<lparr> onClick = HandleGenerateIacClick, loading = isImplementing props,
        disabled = (isDownloading props \<or> isImplementing props \<or>
                    \<not> startsWith (uploadedFileType props) ''image/'') \<rparr>] \<and>
   (\<forall>ev. OnGenerateIacDocument
            \<in> set (newCalls w (snd (uiEvent api collection props ev w))) \<longrightarrow>
      startsWith (uploadedFileType props) ''image/'' \<and>
      \<not> isDownloading props \<and> \<not> isImplementing props)"
proof (intro conjI allI impI)
  show "filter (\<lambda>b. onClick b = HandleGenerateIacClick) (headerActions props st) =
     [\<lparr> onClick = HandleGenerateIacClick, loading = isImplementing props,
        disabled = (isDownloading props \<or> isImplementing props \<or>
                    \<not> startsWith (uploadedFileType props) ''image/'') \<rparr>]"
    by (simp add: headerActions_def)
next
  fix ev
  assume e: "OnGenerateIacDocument \<in> set (newCalls w (snd (uiEvent api collection props ev w)))"
  from e have "startsWith (uploadedFileType props) ''image/'' \<and>
      \<not> isDownloading props \<and> \<not> isImplementing props"
  proof (cases rule: uiEvent_call_origin)
    case clear_filter
    then show ?thesis by simp
  next
    case (header b)
    from header(1) show ?thesis
    proof (cases rule: header_button_cases)
      case details
      with header newCalls_runHandler [of OnGenerateIacDocument w api props HandleGetMoreDetails]
      show ?thesis by simp
    next
      case generate
      with header show ?thesis by simp
    next
      case cancel
      with header newCalls_runHandler [of OnGenerateIacDocument w api props HandleCancelGeneration]
      show ?thesis by simp
    next
      case download
      with header
        newCalls_runHandler [of OnGenerateIacDocument w api props OnDownloadRecommendationsProp]
      show ?thesis by simp
    qed
  next
    case (cell k)
    then show ?thesis by simp
  qed
  then show "startsWith (uploadedFileType props) ''image/''" "\<not> isDownloading props"
    "\<not> isImplementing props" by simp_all
qed

text \<open>The theorem at the example: a click on the second header button, an image uploaded.\<close>

lemma example_click_generate:
  "newCalls exampleWorld
     (snd (uiEvent exampleApi (\<lambda>rows. rows) exampleProps (ClickHeaderAction 1) exampleWorld)) =
     [OnGenerateIacDocument]"
  by (simp add: uiEvent_def headerActions_def clickButton_def runHandler_def startsWith_def
      exampleProps_def newCalls_handleGenerateIacClick)

theorem generateIac_only_when_enabled_witness:
  "OnGenerateIacDocument
     \<in> set (newCalls exampleWorld
               (snd (uiEvent exampleApi (\<lambda>rows. rows) exampleProps (ClickHeaderAction 1)
                       exampleWorld))) \<and>
   startsWith (uploadedFileType exampleProps) ''image/'' \<and>
   \<not> isDownloading exampleProps \<and> \<not> isImplementing exampleProps"
proof -
  have m: "OnGenerateIacDocument
     \<in> set (newCalls exampleWorld
               (snd (uiEvent exampleApi (\<lambda>rows. rows) exampleProps (ClickHeaderAction 1)
                       exampleWorld)))"
    unfolding example_click_generate by simp
  from generateIac_only_when_enabled
         [of exampleProps "state exampleWorld" exampleWorld exampleApi "\<lambda>rows. rows"] m
  show ?thesis by blast
qed

text \<open>
  Claim C7. The cancel handler calls \<open>cancelIaCGeneration\<close>, which takes no argument.
  It completes normally and leaves the component's state as it was; when the call
  rejects, the only further call is \<open>console.error\<close> with the thrown value, so
  neither \<open>setError\<close> nor the loading setter is called. The header holds a button bound
  to the handler exactly when \<open>isImplementing\<close> is set, and no event of the user interface
  reaches \<open>cancelIaCGeneration\<close> otherwise.
\<close>

theorem handleCancelGeneration_forwards:
  "fst (handleCancelGeneration api w) = Normal \<and>
   state (snd (handleCancelGeneration api w)) = state w \<and>
   take (length (trace w)) (trace (snd (handleCancelGeneration api w))) = trace w \<and>
   newCalls w (snd (handleCancelGeneration api w)) =
     (case cancelIaCGeneration api of
        Resolves u \<Rightarrow> [CancelIaCGeneration]
      | Rejects thrown \<Rightarrow>
          [CancelIaCGeneration, ConsoleError ''Failed to cancel IaC generation:'' thrown]) \<and>
   filter isSetError (newCalls w (snd (handleCancelGeneration api w))) = [] \<and>
   filter isSetIsLoadingDetails (newCalls w (snd (handleCancelGeneration api w))) = [] \<and>
   ((\<exists>b \<in> set (headerActions props st). onClick b = HandleCancelGeneration) = isImplementing props) \<and>
   (\<forall>ev. CancelIaCGeneration \<in> set (newCalls w (snd (uiEvent api collection props ev w))) \<longrightarrow>
      isImplementing props)"
proof (intro conjI allI impI)
  show "fst (handleCancelGeneration api w) = Normal"
    "state (snd (handleCancelGeneration api w)) = state w"
    "take (length (trace w)) (trace (snd (handleCancelGeneration api w))) = trace w"
    by (simp_all add: handleCancelGeneration_eq)
  show "newCalls w (snd (handleCancelGeneration api w)) =
     (case cancelIaCGeneration api of
        Resolves u \<Rightarrow> [CancelIaCGeneration]
      | Rejects thrown \<Rightarrow>
          [CancelIaCGeneration, ConsoleError ''Failed to cancel IaC generation:'' thrown])"
    by (rule newCalls_handleCancelGeneration)
  show "filter isSetError (newCalls w (snd (handleCancelGeneration api w))) = []"
    "filter isSetIsLoadingDetails (newCalls w (snd (handleCancelGeneration api w))) = []"
    by (simp_all add: newCalls_handleCancelGeneration isSetError_def isSetIsLoadingDetails_def
        split: Outcome.splits)
  show "(\<exists>b \<in> set (headerActions props st). onClick b = HandleCancelGeneration) = isImplementing props"
    by (auto simp add: headerActions_def)
next
  fix ev
  assume "CancelIaCGeneration \<in> set (newCalls w (snd (uiEvent api collection props ev w)))"
  then show "isImplementing props"
  proof (cases rule: uiEvent_call_origin)
    case clear_filter
    then show ?thesis by simp
  next
    case (header b)
    from header(1) show ?thesis
    proof (cases rule: header_button_cases)
      case details
      with header newCalls_runHandler [of CancelIaCGeneration w api props HandleGetMoreDetails]
      show ?thesis by simp
    next
      case generate
      with header newCalls_runHandler [of CancelIaCGeneration w api props HandleGenerateIacClick]
      show ?thesis by simp
    next
      case cancel
      then show ?thesis by simp
    next
      case download
      with header
        newCalls_runHandler [of CancelIaCGeneration w api props OnDownloadRecommendationsProp]
      show ?thesis by simp
    qed
  next
    case (cell k)
    then show ?thesis by simp
  qed
qed

text \<open>
  The theorem at the example: a generation in progress, a click on the cancel button,
  and an API call that rejects.
\<close>

lemma example_click_cancel:
  "newCalls exampleWorld
     (snd (uiEvent failingApi (\<lambda>rows. rows) implementingProps (ClickHeaderAction 2)
             exampleWorld)) =
     [CancelIaCGeneration,
      ConsoleError ''Failed to cancel IaC generation:'' (ErrorObject ''Network Error'')]"
  by (simp add: uiEvent_def headerActions_def clickButton_def runHandler_def
      implementingProps_def exampleProps_def newCalls_handleCancelGeneration failingApi_def)

theorem handleCancelGeneration_forwards_witness:
  "CancelIaCGeneration
     \<in> set (newCalls exampleWorld
               (snd (uiEvent failingApi (\<lambda>rows. rows) implementingProps (ClickHeaderAction 2)
                       exampleWorld))) \<and>
   isImplementing implementingProps \<and>
   state (snd (handleCancelGeneration failingApi exampleWorld)) = state exampleWorld \<and>
   newCalls exampleWorld (snd (handleCancelGeneration failingApi exampleWorld)) =
     [CancelIaCGeneration,
      ConsoleError ''Failed to cancel IaC generation:'' (ErrorObject ''Network Error'')]"
proof -
  have m: "CancelIaCGeneration
     \<in> set (newCalls exampleWorld
               (snd (uiEvent failingApi (\<lambda>rows. rows) implementingProps (ClickHeaderAction 2)
                       exampleWorld)))"
    unfolding example_click_cancel by simp
  have c: "cancelIaCGeneration failingApi = Rejects (ErrorObject ''Network Error'')"
    by (simp add: failingApi_def)
  from handleCancelGeneration_forwards
         [of failingApi exampleWorld implementingProps "state exampleWorld" "\<lambda>rows. rows"] m
  have "isImplementing implementingProps"
    "state (snd (handleCancelGeneration failingApi exampleWorld)) = state exampleWorld"
    "newCalls exampleWorld (snd (handleCancelGeneration failingApi exampleWorld)) =
       (case cancelIaCGeneration failingApi of
          Resolves u \<Rightarrow> [CancelIaCGeneration]
        | Rejects thrown \<Rightarrow>
            [CancelIaCGeneration, ConsoleError ''Failed to cancel IaC generation:'' thrown])"
    by blast+
  with m c show ?thesis by simp
qed

lemma columnShown_eq:
  "columnShown st columnId = (columnId \<in> set (visibleContent (preferences st)))"
  by (auto simp add: columnShown_def columnDisplay_def)

text \<open>
  Claim C8. The chat handler calls \<open>openChatWithSupportPrompt\<close> with the string
  "Can you provide more detailed recommendations and instructions for the best practice
  '<name>' of the '<pillar>' pillar?", built from the row's \<open>name\<close> and \<open>pillar\<close>. The
  recommendations cell of a row holds the button exactly when the row is relevant, not
  applied and has non-empty recommendations, and the button is bound to the handler for
  that row. A click on the button of a row of the table body, while the recommendations
  column is shown, runs the handler for that row; and no other event of the user
  interface opens the chat.
\<close>

theorem aiChat_prompt_and_icon:
  "handleAiChatClick item w =
     (Normal, w\<lparr>trace := trace w @
        [OpenChatWithSupportPrompt
           (''Can you provide more detailed recommendations and instructions for the best practice ''
            @ [CHR 0x27] @ name item @ [CHR 0x27] @ '' of the '' @ [CHR 0x27]
            @ EnhancedBestPractice.pillar item @ [CHR 0x27] @ '' pillar?'')]\<rparr>) \<and>
   ((\<exists>t b. recommendationsCell item = CellWithButton t b) =
      (relevant item \<and> \<not> BestPractice.applied item \<and> truthy (recommendations item))) \<and>
   (\<forall>t b. recommendationsCell item = CellWithButton t b \<longrightarrow>
      onClick b = HandleAiChatClick item) \<and>
   (\<forall>k. k < length (tableRows collection props) \<and>
        ''recommendations'' \<in> set (visibleContent (preferences (state w))) \<and>
        relevant (tableRows collection props ! k) \<and>
        \<not> BestPractice.applied (tableRows collection props ! k) \<and>
        truthy (recommendations (tableRows collection props ! k)) \<longrightarrow>
        uiEvent api collection props (ClickRecommendationsButton k) w =
          handleAiChatClick (tableRows collection props ! k) w) \<and>
   (\<forall>ev p. OpenChatWithSupportPrompt p
              \<in> set (newCalls w (snd (uiEvent api collection props ev w))) \<longrightarrow>
      (\<exists>k. ev = ClickRecommendationsButton k \<and>
           k < length (tableRows collection props) \<and>
           ''recommendations'' \<in> set (visibleContent (preferences (state w))) \<and>
           p = chatPrompt (tableRows collection props ! k) \<and>
           relevant (tableRows collection props ! k) \<and>
           \<not> BestPractice.applied (tableRows collection props ! k) \<and>
           truthy (recommendations (tableRows collection props ! k))))"
proof (intro conjI allI impI)
  show "handleAiChatClick item w =
     (Normal, w\<lparr>trace := trace w @
        [OpenChatWithSupportPrompt
           (''Can you provide more detailed recommendations and instructions for the best practice ''
            @ [CHR 0x27] @ name item @ [CHR 0x27] @ '' of the '' @ [CHR 0x27]
            @ EnhancedBestPractice.pillar item @ [CHR 0x27] @ '' pillar?'')]\<rparr>)"
    by (simp add: handleAiChatClick_def chatPrompt_def call_def)
  show "(\<exists>t b. recommendationsCell item = CellWithButton t b) =
      (relevant item \<and> \<not> BestPractice.applied item \<and> truthy (recommendations item))"
    by (auto simp add: recommendationsCell_def)
next
  fix t b
  assume "recommendationsCell item = CellWithButton t b"
  then show "onClick b = HandleAiChatClick item" by (rule cell_button_handler)
next
  fix k
  assume k: "k < length (tableRows collection props) \<and>
        ''recommendations'' \<in> set (visibleContent (preferences (state w))) \<and>
        relevant (tableRows collection props ! k) \<and>
        \<not> BestPractice.applied (tableRows collection props ! k) \<and>
        truthy (recommendations (tableRows collection props ! k))"
  then show "uiEvent api collection props (ClickRecommendationsButton k) w =
          handleAiChatClick (tableRows collection props ! k) w"
    by (simp add: uiEvent_def Let_def columnShown_eq recommendationsCell_def clickButton_def
        runHandler_def)
next
  fix ev p
  assume "OpenChatWithSupportPrompt p \<in> set (newCalls w (snd (uiEvent api collection props ev w)))"
  then show "\<exists>k. ev = ClickRecommendationsButton k \<and>
           k < length (tableRows collection props) \<and>
           ''recommendations'' \<in> set (visibleContent (preferences (state w))) \<and>
           p = chatPrompt (tableRows collection props ! k) \<and>
           relevant (tableRows collection props ! k) \<and>
           \<not> BestPractice.applied (tableRows collection props ! k) \<and>
           truthy (recommendations (tableRows collection props ! k))"
  proof (cases rule: uiEvent_call_origin)
    case clear_filter
    then show ?thesis by simp
  next
    case (header b)
    from header(1) show ?thesis
    proof (cases rule: header_button_cases)
      case details
      with header
        newCalls_runHandler [of "OpenChatWithSupportPrompt p" w api props HandleGetMoreDetails]
      show ?thesis by simp
    next
      case generate
      with header
        newCalls_runHandler [of "OpenChatWithSupportPrompt p" w api props HandleGenerateIacClick]
      show ?thesis by simp
    next
      case cancel
      with header
        newCalls_runHandler [of "OpenChatWithSupportPrompt p" w api props HandleCancelGeneration]
      show ?thesis by simp
    next
      case download
      with header
        newCalls_runHandler [of "OpenChatWithSupportPrompt p" w api props
          OnDownloadRecommendationsProp]
      show ?thesis by simp
    qed
  next
    case (cell k)
    then show ?thesis by (simp add: columnShown_eq)
  qed
qed

text \<open>
  The theorem at the example: the second row of the table body, which is relevant, not
  applied and has recommendations, with the recommendations column shown.
\<close>

lemma exampleRow_fields:
  "relevant exampleRow" "\<not> BestPractice.applied exampleRow"
  "recommendations exampleRow = Some ''Enable MFA for the root user''"
  "name exampleRow = ''Secure account root user and properties''"
  "EnhancedBestPractice.pillar exampleRow = ''Security''"
  by (simp_all add: exampleRow_def enhance_def exampleResults_def exampleBP2_def
      BestPractice.defs EnhancedBestPractice.defs)

lemma example_tableRows:
  "1 < length (tableRows (\<lambda>rows. rows) exampleProps)"
  "tableRows (\<lambda>rows. rows) exampleProps ! 1 = exampleRow"
  by (simp_all add: tableRows_def exampleProps_def flattenedBestPractices_def flatMap_def
      exampleResults_def exampleRow_def)

theorem aiChat_prompt_and_icon_witness:
  "(1::nat) < length (tableRows (\<lambda>rows. rows) exampleProps) \<and>
   ''recommendations'' \<in> set (visibleContent (preferences (state exampleWorld))) \<and>
   relevant (tableRows (\<lambda>rows. rows) exampleProps ! 1) \<and>
   \<not> BestPractice.applied (tableRows (\<lambda>rows. rows) exampleProps ! 1) \<and>
   truthy (recommendations (tableRows (\<lambda>rows. rows) exampleProps ! 1)) \<and>
   recommendationsCell (tableRows (\<lambda>rows. rows) exampleProps ! 1) =
     CellWithButton ''Enable MFA for the root user''
       \<lparr> onClick = HandleAiChatClick exampleRow, loading = False, disabled = False \<rparr> \<and>
   uiEvent exampleApi (\<lambda>rows. rows) exampleProps (ClickRecommendationsButton 1) exampleWorld =
     (Normal, exampleWorld\<lparr>trace := trace exampleWorld @
        [OpenChatWithSupportPrompt
           (''Can you provide more detailed recommendations and instructions for the best practice ''
            @ [CHR 0x27] @ ''Secure account root user and properties'' @ [CHR 0x27]
            @ '' of the '' @ [CHR 0x27] @ ''Security'' @ [CHR 0x27] @ '' pillar?'')]\<rparr>)"
proof -
  have v: "''recommendations'' \<in> set (visibleContent (preferences (state exampleWorld)))"
    by (simp add: exampleWorld_def)
  have f: "relevant exampleRow" "\<not> BestPractice.applied exampleRow"
    "truthy (recommendations exampleRow)"
    by (simp_all add: exampleRow_fields truthy_def)
  have c: "recommendationsCell exampleRow =
     CellWithButton ''Enable MFA for the root user''
       \<lparr> onClick = HandleAiChatClick exampleRow, loading = False, disabled = False \<rparr>"
    by (simp add: recommendationsCell_def exampleRow_fields truthy_def rendered_def)
  note t = aiChat_prompt_and_icon
    [of exampleRow exampleWorld "\<lambda>rows. rows" exampleProps exampleApi]
  from t have h: "handleAiChatClick exampleRow exampleWorld =
     (Normal, exampleWorld\<lparr>trace := trace exampleWorld @
        [OpenChatWithSupportPrompt
           (''Can you provide more detailed recommendations and instructions for the best practice ''
            @ [CHR 0x27] @ name exampleRow @ [CHR 0x27] @ '' of the '' @ [CHR 0x27]
            @ EnhancedBestPractice.pillar exampleRow @ [CHR 0x27] @ '' pillar?'')]\<rparr>)"
    by blast
  from t v f example_tableRows
  have "uiEvent exampleApi (\<lambda>rows. rows) exampleProps (ClickRecommendationsButton 1) exampleWorld =
      handleAiChatClick exampleRow exampleWorld"
    by (metis (no_types, lifting))
  with h v f c example_tableRows show ?thesis
    by (simp add: exampleRow_fields)
qed

section \<open>Properties of the lens alias and the link\<close>

lemma split_not_Nil: "split sep s \<noteq> []"
  by (induction s) (simp_all split: list.splits)

lemma split_no_sep: "sep \<notin> set s \<Longrightarrow> split sep s = [s]"
  by (induction s) auto

lemma split_sep_two: "sep \<in> set s \<Longrightarrow> \<exists>p q qs. split sep s = p # q # qs"
proof (induction s)
  case Nil
  then show ?case by simp
next
  case (Cons c cs)
  show ?case
  proof (cases "c = sep")
    case True
    then show ?thesis
      using split_not_Nil [of sep cs] by (cases "split sep cs") simp_all
  next
    case False
    with Cons obtain p q qs where "split sep cs = p # q # qs" by auto
    with False show ?thesis by simp
  qed
qed

lemma afterLastSlash_Cons:
  "afterLastSlash (c # cs) =
     (if CHR ''/'' \<in> set cs then afterLastSlash cs
      else if c = CHR ''/'' then cs else c # cs)"
proof -
  have all: "CHR ''/'' \<notin> set cs \<Longrightarrow> takeWhile (\<lambda>c. c \<noteq> CHR ''/'') (rev cs) = rev cs"
    by (auto simp add: takeWhile_eq_all_conv)
  show ?thesis
    by (auto simp add: afterLastSlash_def takeWhile_append all)
qed

lemma last_split: "last (split (CHR ''/'') s) = afterLastSlash s"
proof (induction s)
  case Nil
  then show ?case by (simp add: afterLastSlash_def)
next
  case (Cons c cs)
  show ?case
  proof (cases "CHR ''/'' \<in> set cs")
    case True
    then obtain p q qs where "split (CHR ''/'') cs = p # q # qs"
      using split_sep_two by blast
    with True Cons show ?thesis by (simp add: afterLastSlash_Cons)
  next
    case False
    then have "split (CHR ''/'') cs = [cs]" by (rule split_no_sep)
    with False show ?thesis by (simp add: afterLastSlash_Cons)
  qed
qed

lemma lensAlias_eq:
  "lensAlias arn =
     (case arn of
        None \<Rightarrow> ''wellarchitected''
      | Some s \<Rightarrow> if afterLastSlash s = [] then ''wellarchitected'' else afterLastSlash s)"
  by (simp add: lensAlias_def pop_def split_not_Nil truthy_def rendered_def last_split
      split: option.splits)

lemma href_distinct:
  "frameworkPage bpId \<noteq> documentationSearch enc lens pil"
  by (simp add: frameworkPage_def documentationSearch_def)

text \<open>
  Claim C10 says that \<open>lensAlias\<close> is the default 'wellarchitected' exactly when
  \<open>lensAliasArn\<close> is undefined or its last segment is empty. For the alias ARN of the
  framework's own lens the last segment is itself 'wellarchitected': \<open>lensAlias\<close> is
  'wellarchitected' although the ARN is defined and the segment is not empty.
\<close>

theorem lensAlias_default_counterexample:
  "\<not> (lensAlias (Some ''arn:aws:wellarchitected::aws:lens/wellarchitected'') = ''wellarchitected''
       \<longleftrightarrow> (Some ''arn:aws:wellarchitected::aws:lens/wellarchitected'' = (None :: string option)
            \<or> afterLastSlash ''arn:aws:wellarchitected::aws:lens/wellarchitected'' = []))"
  by (simp add: lensAlias_eq afterLastSlash_def)

text \<open>
  Claim C10, amended. \<open>lensAlias\<close> is the default 'wellarchitected' when \<open>lensAliasArn\<close>
  is undefined or the substring after its last '/' (the whole string if it has no '/')
  is empty, and is that substring otherwise. So it equals 'wellarchitected' exactly
  when \<open>lensAliasArn\<close> is undefined, or that substring is empty or is itself
  'wellarchitected'. The link of the name column is the framework page built from the
  item's \<open>id\<close> if and only if \<open>lensAlias\<close> is 'wellarchitected', and the documentation
  search built from \<open>lensName\<close> and the item's pillar if and only if it is not.
\<close>

theorem lensAlias_and_link:
  "lensAlias arn =
     (case arn of
        None \<Rightarrow> ''wellarchitected''
      | Some s \<Rightarrow> if afterLastSlash s = [] then ''wellarchitected'' else afterLastSlash s) \<and>
   (lensAlias arn = ''wellarchitected'' \<longleftrightarrow>
      arn = None \<or>
      (\<exists>s. arn = Some s \<and> (afterLastSlash s = [] \<or> afterLastSlash s = ''wellarchitected''))) \<and>
   (nameLinkHref enc props item = frameworkPage (id_bp item) \<longleftrightarrow>
      lensAlias (lensAliasArn props) = ''wellarchitected'') \<and>
   (nameLinkHref enc props item =
      documentationSearch enc (lensName props) (EnhancedBestPractice.pillar item) \<longleftrightarrow>
      lensAlias (lensAliasArn props) \<noteq> ''wellarchitected'')"
proof (intro conjI)
  show "lensAlias arn =
     (case arn of
        None \<Rightarrow> ''wellarchitected''
      | Some s \<Rightarrow> if afterLastSlash s = [] then ''wellarchitected'' else afterLastSlash s)"
    by (rule lensAlias_eq)
  show "lensAlias arn = ''wellarchitected'' \<longleftrightarrow>
      arn = None \<or>
      (\<exists>s. arn = Some s \<and> (afterLastSlash s = [] \<or> afterLastSlash s = ''wellarchitected''))"
    by (cases arn) (simp_all add: lensAlias_eq)
  have fw: "lensAlias (lensAliasArn props) = ''wellarchitected'' \<Longrightarrow>
      nameLinkHref enc props item = frameworkPage (id_bp item)"
    by (simp add: nameLinkHref_def frameworkPage_def)
  have ds: "lensAlias (lensAliasArn props) \<noteq> ''wellarchitected'' \<Longrightarrow>
      nameLinkHref enc props item =
      documentationSearch enc (lensName props) (EnhancedBestPractice.pillar item)"
    by (simp add: nameLinkHref_def documentationSearch_def)
  note ne = href_distinct [of "id_bp item" enc "lensName props" "EnhancedBestPractice.pillar item"]
  show "nameLinkHref enc props item = frameworkPage (id_bp item) \<longleftrightarrow>
      lensAlias (lensAliasArn props) = ''wellarchitected''"
    using fw ds ne by (cases "lensAlias (lensAliasArn props) = ''wellarchitected''") simp_all
  show "nameLinkHref enc props item =
      documentationSearch enc (lensName props) (EnhancedBestPractice.pillar item) \<longleftrightarrow>
      lensAlias (lensAliasArn props) \<noteq> ''wellarchitected''"
    using fw ds ne by (cases "lensAlias (lensAliasArn props) = ''wellarchitected''") simp_all
qed

text \<open>The theorem at the example, a lens other than the framework's, and at two inputs
  that take the default.\<close>

theorem lensAlias_and_link_witness:
  "lensAlias (lensAliasArn exampleProps) = ''serverless'' \<and>
   nameLinkHref (\<lambda>s. s) exampleProps exampleRow =
     documentationSearch (\<lambda>s. s) ''Serverless Lens'' ''Security'' \<and>
   lensAlias None = ''wellarchitected'' \<and>
   lensAlias (Some ''arn:aws:wellarchitected::aws:lens/'') = ''wellarchitected''"
proof -
  have a: "lensAliasArn exampleProps = Some ''arn:aws:wellarchitected::aws:lens/serverless''"
    "lensName exampleProps = ''Serverless Lens''"
    by (simp_all add: exampleProps_def)
  have s: "afterLastSlash ''arn:aws:wellarchitected::aws:lens/serverless'' = ''serverless''"
    "afterLastSlash ''arn:aws:wellarchitected::aws:lens/'' = []"
    by (simp_all add: afterLastSlash_def)
  from lensAlias_and_link [of "lensAliasArn exampleProps" "\<lambda>s. s" exampleProps exampleRow]
    lensAlias_and_link [of None "\<lambda>s. s" exampleProps exampleRow]
    lensAlias_and_link [of "Some ''arn:aws:wellarchitected::aws:lens/''" "\<lambda>s. s" exampleProps exampleRow]
  show ?thesis by (simp add: a s exampleRow_fields)
qed

section \<open>Properties of the store computation\<close>

text \<open>Every operation only appends to the store.\<close>

lemma deref_append: "deref s a = Some obj \<Longrightarrow> deref (s @ ext) a = Some obj"
  by (auto simp add: deref_def nth_append split: if_splits)

lemma deref_fresh: "deref (s @ [obj]) (length s) = Some obj"
  by (simp add: deref_def)

lemma mapEnhance_extends:
  "mapEnhance result bps s = Some (rows, s') \<Longrightarrow> \<exists>ext. s' = s @ ext"
proof (induction bps arbitrary: s rows)
  case Nil
  then show ?case by simp
next
  case (Cons bp bps)
  from Cons.prems obtain obj rows' where
    "mapEnhance result bps (s @ [obj]) = Some (rows', s')"
    by (auto simp add: alloc_def split: option.splits Obj.splits prod.splits)
  from Cons.IH [OF this] show ?case by auto
qed

lemma flatMapCallback_extends:
  "flatMapCallback result s = Some (mapped, s') \<Longrightarrow> \<exists>ext. s' = s @ ext"
  by (auto simp add: flatMapCallback_def alloc_def split: option.splits Obj.splits
      dest!: mapEnhance_extends)

lemma flatMapResults_extends:
  "flatMapResults rs s = Some (rows, s') \<Longrightarrow> \<exists>ext. s' = s @ ext"
proof (induction rs arbitrary: s rows)
  case Nil
  then show ?case by simp
next
  case (Cons r rs)
  from Cons.prems obtain mapped s1 others where
    cb: "flatMapCallback r s = Some (mapped, s1)" and
    rest: "flatMapResults rs s1 = Some (others, s')"
    by (auto split: option.splits Obj.splits)
  from flatMapCallback_extends [OF cb] Cons.IH [OF rest] show ?case by auto
qed

lemma flattenInStore_extends:
  "flattenInStore resultsAddr s = Some (flat, s') \<Longrightarrow> \<exists>ext. s' = s @ ext"
  by (auto simp add: flattenInStore_def alloc_def split: option.splits Obj.splits
      dest!: flatMapResults_extends)

lemma reduceCounts_extends:
  "reduceCounts acc ps s = Some (acc', s') \<Longrightarrow> \<exists>ext. s' = s @ ext"
proof (induction ps arbitrary: s acc)
  case Nil
  then show ?case by simp
next
  case (Cons p ps)
  from Cons.prems obtain obj where
    "reduceCounts (length s) ps (s @ [obj]) = Some (acc', s')"
    by (auto simp add: alloc_def split: option.splits Obj.splits)
  from Cons.IH [OF this] show ?case by auto
qed

lemma countsInStore_extends:
  "countsInStore practices s = Some (counts, s') \<Longrightarrow> \<exists>ext. s' = s @ ext"
  by (auto simp add: countsInStore_def alloc_def split: option.splits Obj.splits
      dest!: reduceCounts_extends)

lemma renderInStore_extends:
  "renderInStore resultsAddr s = Some (flat, counts, s') \<Longrightarrow> \<exists>ext. s' = s @ ext"
  by (auto simp add: renderInStore_def split: option.splits
      dest!: flattenInStore_extends countsInStore_extends)

text \<open>What was read from a store is read from every extension of it.\<close>

lemma readBestPractices_append:
  "readBestPractices s as = Some bs \<Longrightarrow> readBestPractices (s @ ext) as = Some bs"
proof (induction as arbitrary: bs)
  case Nil
  then show ?case by simp
next
  case (Cons a as)
  from Cons.prems obtain b bs' where
    "deref s a = Some (BestPracticeObj b)" "readBestPractices s as = Some bs'" "bs = b # bs'"
    by (auto split: option.splits Obj.splits)
  with Cons.IH [of bs'] show ?case by (simp add: deref_append)
qed

lemma readResult_append:
  "readResult s a = Some r \<Longrightarrow> readResult (s @ ext) a = Some r"
  by (auto simp add: readResult_def deref_append readBestPractices_append
      split: option.splits Obj.splits)

lemma readResultList_append:
  "readResultList s as = Some rs \<Longrightarrow> readResultList (s @ ext) as = Some rs"
proof (induction as arbitrary: rs)
  case Nil
  then show ?case by simp
next
  case (Cons a as)
  from Cons.prems obtain r rs' where
    "readResult s a = Some r" "readResultList s as = Some rs'" "rs = r # rs'"
    by (auto split: option.splits)
  with Cons.IH [of rs'] show ?case by (simp add: readResult_append)
qed

lemma readResults_append:
  "readResults s a = Some rs \<Longrightarrow> readResults (s @ ext) a = Some rs"
  by (auto simp add: readResults_def deref_append readResultList_append
      split: option.splits Obj.splits)

lemma readRowList_append:
  "readRowList s as = Some es \<Longrightarrow> readRowList (s @ ext) as = Some es"
proof (induction as arbitrary: es)
  case Nil
  then show ?case by simp
next
  case (Cons a as)
  from Cons.prems obtain e es' where
    "deref s a = Some (EnhancedObj e)" "readRowList s as = Some es'" "es = e # es'"
    by (auto split: option.splits Obj.splits)
  with Cons.IH [of es'] show ?case by (simp add: deref_append)
qed

lemma readRowList_concat:
  "readRowList s as = Some es \<Longrightarrow> readRowList s bs = Some fs \<Longrightarrow>
     readRowList s (as @ bs) = Some (es @ fs)"
proof (induction as arbitrary: es)
  case Nil
  then show ?case by simp
next
  case (Cons a as)
  from Cons.prems(1) obtain e es' where
    "deref s a = Some (EnhancedObj e)" "readRowList s as = Some es'" "es = e # es'"
    by (auto split: option.splits Obj.splits)
  with Cons.IH [of es'] Cons.prems(2) show ?case by simp
qed

text \<open>On a store that holds results, each operation succeeds and computes what the
  first model computes.\<close>

lemma mapEnhance_reads:
  assumes "deref s result = Some (ResultObj p q qid arr)"
      and "readBestPractices s bps = Some bs"
  shows "\<exists>rows ext. mapEnhance result bps s = Some (rows, s @ ext) \<and>
           readRowList (s @ ext) rows =
             Some (map (\<lambda>b. BestPractice.extend b (EnhancedBestPractice.fields p q qid)) bs) \<and>
           (\<forall>a \<in> set rows. length s \<le> a)"
  using assms
proof (induction bps arbitrary: s bs)
  case Nil
  then show ?case by simp
next
  case (Cons bp bps)
  from Cons.prems(2) obtain b bs' where
    b: "deref s bp = Some (BestPracticeObj b)" and
    bs': "readBestPractices s bps = Some bs'" and bs: "bs = b # bs'"
    by (auto split: option.splits Obj.splits)
  let ?s1 = "s @ [EnhancedObj (BestPractice.extend b (EnhancedBestPractice.fields p q qid))]"
  have r1: "deref ?s1 result = Some (ResultObj p q qid arr)"
    using Cons.prems(1) by (rule deref_append)
  have b1: "readBestPractices ?s1 bps = Some bs'"
    using bs' by (rule readBestPractices_append)
  from Cons.IH [OF r1 b1] obtain rows ext where
    m: "mapEnhance result bps ?s1 = Some (rows, ?s1 @ ext)" and
    rd: "readRowList (?s1 @ ext) rows =
          Some (map (\<lambda>b. BestPractice.extend b (EnhancedBestPractice.fields p q qid)) bs')" and
    fr: "\<forall>a \<in> set rows. length ?s1 \<le> a"
    by blast
  have first: "deref (?s1 @ ext) (length s) =
      Some (EnhancedObj (BestPractice.extend b (EnhancedBestPractice.fields p q qid)))"
    by (rule deref_append) (rule deref_fresh)
  have "mapEnhance result (bp # bps) s = Some (length s # rows, ?s1 @ ext)"
    using b Cons.prems(1) m by (simp add: alloc_def)
  moreover have "readRowList (?s1 @ ext) (length s # rows) =
      Some (map (\<lambda>b. BestPractice.extend b (EnhancedBestPractice.fields p q qid)) bs)"
    using first rd bs by simp
  moreover have "\<forall>a \<in> set (length s # rows). length s \<le> a"
    using fr by auto
  ultimately show ?case
    by (metis append.assoc)
qed

lemma flatMapCallback_reads:
  assumes "readResult s result = Some r"
  shows "\<exists>mapped rows ext. flatMapCallback result s = Some (mapped, s @ ext) \<and>
           deref (s @ ext) mapped = Some (ArrayObj rows) \<and>
           readRowList (s @ ext) rows = Some (map (\<lambda>bp. enhance r bp) (bestPractices r)) \<and>
           (\<forall>a \<in> set rows. length s \<le> a)"
proof -
  from assms obtain p q qid arr bps bs where
    res: "deref s result = Some (ResultObj p q qid arr)" and
    arr: "deref s arr = Some (ArrayObj bps)" and
    bs: "readBestPractices s bps = Some bs" and
    r: "r = \<lparr> AnalysisResult.pillar = p, AnalysisResult.question = q,
              AnalysisResult.questionId = qid, bestPractices = bs \<rparr>"
    by (auto simp add: readResult_def split: option.splits Obj.splits)
  from mapEnhance_reads [OF res bs] obtain rows ext where
    m: "mapEnhance result bps s = Some (rows, s @ ext)" and
    rd: "readRowList (s @ ext) rows =
          Some (map (\<lambda>b. BestPractice.extend b (EnhancedBestPractice.fields p q qid)) bs)" and
    fr: "\<forall>a \<in> set rows. length s \<le> a"
    by blast
  let ?s2 = "s @ (ext @ [ArrayObj rows])"
  have "flatMapCallback result s = Some (length (s @ ext), ?s2)"
    using res arr m by (simp add: flatMapCallback_def alloc_def)
  moreover have "deref ?s2 (length (s @ ext)) = Some (ArrayObj rows)"
    using deref_fresh [of "s @ ext" "ArrayObj rows"] by simp
  moreover have "readRowList ?s2 rows = Some (map (\<lambda>bp. enhance r bp) (bestPractices r))"
    using readRowList_append [OF rd, of "[ArrayObj rows]"] r by (simp add: enhance_def)
  ultimately show ?thesis using fr by blast
qed

lemma flatMapResults_reads:
  assumes "readResultList s as = Some rs"
  shows "\<exists>rows ext. flatMapResults as s = Some (rows, s @ ext) \<and>
           readRowList (s @ ext) rows = Some (flattenedBestPractices rs) \<and>
           (\<forall>a \<in> set rows. length s \<le> a)"
  using assms
proof (induction as arbitrary: s rs)
  case Nil
  then show ?case by (simp add: flattenedBestPractices_def flatMap_def)
next
  case (Cons a as)
  from Cons.prems obtain r rs' where
    r: "readResult s a = Some r" and rs': "readResultList s as = Some rs'" and
    rs: "rs = r # rs'"
    by (auto split: option.splits)
  from flatMapCallback_reads [OF r] obtain mapped rows ext where
    cb: "flatMapCallback a s = Some (mapped, s @ ext)" and
    arr: "deref (s @ ext) mapped = Some (ArrayObj rows)" and
    rd: "readRowList (s @ ext) rows = Some (map (\<lambda>bp. enhance r bp) (bestPractices r))" and
    fr: "\<forall>a \<in> set rows. length s \<le> a"
    by blast
  have "readResultList (s @ ext) as = Some rs'"
    using rs' by (rule readResultList_append)
  from Cons.IH [OF this] obtain others ext' where
    rest: "flatMapResults as (s @ ext) = Some (others, (s @ ext) @ ext')" and
    rd': "readRowList ((s @ ext) @ ext') others = Some (flattenedBestPractices rs')" and
    fr': "\<forall>a \<in> set others. length (s @ ext) \<le> a"
    by blast
  have "flatMapResults (a # as) s = Some (rows @ others, s @ (ext @ ext'))"
    using cb arr rest by simp
  moreover have "readRowList (s @ (ext @ ext')) (rows @ others) = Some (flattenedBestPractices rs)"
    using readRowList_concat [OF readRowList_append [OF rd, of ext'] rd'] rs
    by (simp add: flattenedBestPractices_def flatMap_def)
  moreover have "\<forall>a \<in> set (rows @ others). length s \<le> a"
    using fr fr' by auto
  ultimately show ?case by blast
qed

lemma flattenInStore_reads:
  assumes "readResults s resultsAddr = Some rs"
  shows "\<exists>flat rows ext. flattenInStore resultsAddr s = Some (flat, s @ ext) \<and>
           deref (s @ ext) flat = Some (ArrayObj rows) \<and>
           readRowList (s @ ext) rows = Some (flattenedBestPractices rs) \<and>
           length s \<le> flat \<and> (\<forall>a \<in> set rows. length s \<le> a)"
proof -
  from assms obtain as where
    arr: "deref s resultsAddr = Some (ArrayObj as)" and l: "readResultList s as = Some rs"
    by (auto simp add: readResults_def split: option.splits Obj.splits)
  from flatMapResults_reads [OF l] obtain rows ext where
    m: "flatMapResults as s = Some (rows, s @ ext)" and
    rd: "readRowList (s @ ext) rows = Some (flattenedBestPractices rs)" and
    fr: "\<forall>a \<in> set rows. length s \<le> a"
    by blast
  let ?s2 = "s @ (ext @ [ArrayObj rows])"
  have "flattenInStore resultsAddr s = Some (length (s @ ext), ?s2)"
    using arr m by (simp add: flattenInStore_def alloc_def)
  moreover have "deref ?s2 (length (s @ ext)) = Some (ArrayObj rows)"
    using deref_fresh [of "s @ ext" "ArrayObj rows"] by simp
  moreover have "readRowList ?s2 rows = Some (flattenedBestPractices rs)"
    using readRowList_append [OF rd, of "[ArrayObj rows]"] by simp
  moreover have "length s \<le> length (s @ ext)" by simp
  ultimately show ?thesis using fr by blast
qed

lemma reduceCounts_reads:
  assumes "deref s acc = Some (CountsObj c)" and "readRowList s ps = Some es"
  shows "\<exists>acc' ext. reduceCounts acc ps s = Some (acc', s @ ext) \<and>
           deref (s @ ext) acc' = Some (CountsObj (foldl countStep c es))"
  using assms
proof (induction ps arbitrary: s acc c es)
  case Nil
  then have "reduceCounts acc [] s = Some (acc, s @ [])" "deref (s @ []) acc = Some (CountsObj (foldl countStep c es))"
    by simp_all
  then show ?case by blast
next
  case (Cons p ps)
  from Cons.prems(2) obtain e es' where
    e: "deref s p = Some (EnhancedObj e)" and es': "readRowList s ps = Some es'" and
    es: "es = e # es'"
    by (auto split: option.splits Obj.splits)
  let ?s1 = "s @ [CountsObj (countStep c e)]"
  have a1: "deref ?s1 (length s) = Some (CountsObj (countStep c e))" by (rule deref_fresh)
  have r1: "readRowList ?s1 ps = Some es'" using es' by (rule readRowList_append)
  from Cons.IH [OF a1 r1] obtain acc' ext where
    "reduceCounts (length s) ps ?s1 = Some (acc', ?s1 @ ext)"
    "deref (?s1 @ ext) acc' = Some (CountsObj (foldl countStep (countStep c e) es'))"
    by blast
  then have "reduceCounts acc (p # ps) s = Some (acc', s @ ([CountsObj (countStep c e)] @ ext))"
    "deref (s @ ([CountsObj (countStep c e)] @ ext)) acc' = Some (CountsObj (foldl countStep c es))"
    using Cons.prems(1) e es by (simp_all add: alloc_def)
  then show ?case by blast
qed

lemma countsInStore_reads:
  assumes "deref s flat = Some (ArrayObj ps)" and "readRowList s ps = Some es"
  shows "\<exists>counts ext. countsInStore flat s = Some (counts, s @ ext) \<and>
           readCounts (s @ ext) counts = Some (getBestPracticeCounts es)"
proof -
  let ?zero = "CountsObj \<lparr> Counts.applied = 0, notApplied = 0, notRelevant = 0 \<rparr>"
  let ?s0 = "s @ [?zero]"
  have a0: "deref ?s0 (length s) = Some ?zero" by (rule deref_fresh)
  have r0: "readRowList ?s0 ps = Some es" using assms(2) by (rule readRowList_append)
  from reduceCounts_reads [OF a0 r0] obtain acc ext where
    red: "reduceCounts (length s) ps ?s0 = Some (acc, ?s0 @ ext)" and
    acc: "deref (?s0 @ ext) acc =
            Some (CountsObj (foldl countStep
              \<lparr> Counts.applied = 0, notApplied = 0, notRelevant = 0 \<rparr> es))"
    by blast
  let ?counts = "foldl countStep \<lparr> Counts.applied = 0, notApplied = 0, notRelevant = 0 \<rparr> es"
  let ?total = "CountsWithTotalObj (Counts.extend ?counts
      (CountsWithTotal.fields
         (Counts.applied ?counts + notApplied ?counts + notRelevant ?counts)))"
  have "countsInStore flat s = Some (length (?s0 @ ext), s @ ([?zero] @ ext @ [?total]))"
    using assms(1) red acc by (simp add: countsInStore_def alloc_def)
  moreover have "readCounts (s @ ([?zero] @ ext @ [?total])) (length (?s0 @ ext)) =
      Some (getBestPracticeCounts es)"
    using deref_fresh [of "?s0 @ ext" ?total]
    by (simp add: readCounts_def getBestPracticeCounts_def Let_def)
  ultimately show ?thesis by blast
qed

lemma renderInStore_reads:
  assumes "readResults s resultsAddr = Some rs"
  shows "\<exists>flat counts rows ext.
           renderInStore resultsAddr s = Some (flat, counts, s @ ext) \<and>
           deref (s @ ext) flat = Some (ArrayObj rows) \<and>
           length s \<le> flat \<and> (\<forall>a \<in> set rows. length s \<le> a) \<and>
           readRows (s @ ext) flat = Some (flattenedBestPractices rs) \<and>
           readCounts (s @ ext) counts =
             Some (getBestPracticeCounts (flattenedBestPractices rs))"
proof -
  from flattenInStore_reads [OF assms] obtain flat rows ext where
    fl: "flattenInStore resultsAddr s = Some (flat, s @ ext)" and
    arr: "deref (s @ ext) flat = Some (ArrayObj rows)" and
    rd: "readRowList (s @ ext) rows = Some (flattenedBestPractices rs)" and
    fr: "length s \<le> flat" "\<forall>a \<in> set rows. length s \<le> a"
    by blast
  from countsInStore_reads [OF arr rd] obtain counts ext' where
    co: "countsInStore flat (s @ ext) = Some (counts, (s @ ext) @ ext')" and
    rc: "readCounts ((s @ ext) @ ext') counts =
           Some (getBestPracticeCounts (flattenedBestPractices rs))"
    by blast
  have "renderInStore resultsAddr s = Some (flat, counts, s @ (ext @ ext'))"
    using fl co by (simp add: renderInStore_def)
  moreover have "deref (s @ (ext @ ext')) flat = Some (ArrayObj rows)"
    using deref_append [OF arr, of ext'] by simp
  moreover have "readRows (s @ (ext @ ext')) flat = Some (flattenedBestPractices rs)"
    using deref_append [OF arr, of ext'] readRowList_append [OF rd, of ext']
    by (simp add: readRows_def)
  moreover have "readCounts (s @ (ext @ ext')) counts =
           Some (getBestPracticeCounts (flattenedBestPractices rs))"
    using rc by simp
  ultimately show ?thesis using fr by blast
qed

text \<open>
  Claim C9. Computing the flattened rows and the counts changes no object that existed
  before: whenever the computation returns, the store it returns starts with the store
  it was given. And on every store whose \<open>results\<close> array holds results (of any number,
  with any number of best practices each) the computation does return: \<open>results\<close>, read
  back from the new store with every result and every best practice, is what it was;
  the rows are new objects, at addresses the old store did not have; and the rows and
  the counts are those of the first model.
\<close>

theorem renderInStore_leaves_results_unchanged:
  "(\<forall>flat counts s'. renderInStore resultsAddr s = Some (flat, counts, s') \<longrightarrow>
      take (length s) s' = s) \<and>
   (\<forall>rs. readResults s resultsAddr = Some rs \<longrightarrow>
      (\<exists>flat counts rows s'.
         renderInStore resultsAddr s = Some (flat, counts, s') \<and>
         take (length s) s' = s \<and>
         readResults s' resultsAddr = Some rs \<and>
         deref s' flat = Some (ArrayObj rows) \<and>
         length s \<le> flat \<and> (\<forall>a \<in> set rows. length s \<le> a) \<and>
         readRows s' flat = Some (flattenedBestPractices rs) \<and>
         readCounts s' counts = Some (getBestPracticeCounts (flattenedBestPractices rs))))"
proof (intro conjI allI impI)
  fix flat counts s'
  assume "renderInStore resultsAddr s = Some (flat, counts, s')"
  then obtain ext where "s' = s @ ext" using renderInStore_extends by blast
  then show "take (length s) s' = s" by simp
next
  fix rs
  assume rs: "readResults s resultsAddr = Some rs"
  from renderInStore_reads [OF rs] obtain flat counts rows ext where
    "renderInStore resultsAddr s = Some (flat, counts, s @ ext)"
    "deref (s @ ext) flat = Some (ArrayObj rows)"
    "length s \<le> flat" "\<forall>a \<in> set rows. length s \<le> a"
    "readRows (s @ ext) flat = Some (flattenedBestPractices rs)"
    "readCounts (s @ ext) counts = Some (getBestPracticeCounts (flattenedBestPractices rs))"
    by blast
  moreover have "take (length s) (s @ ext) = s" by simp
  moreover have "readResults (s @ ext) resultsAddr = Some rs"
    using rs by (rule readResults_append)
  ultimately show "\<exists>flat counts rows s'.
         renderInStore resultsAddr s = Some (flat, counts, s') \<and>
         take (length s) s' = s \<and>
         readResults s' resultsAddr = Some rs \<and>
         deref s' flat = Some (ArrayObj rows) \<and>
         length s \<le> flat \<and> (\<forall>a \<in> set rows. length s \<le> a) \<and>
         readRows s' flat = Some (flattenedBestPractices rs) \<and>
         readCounts s' counts = Some (getBestPracticeCounts (flattenedBestPractices rs))"
    by blast
qed

text \<open>The theorem at the example store, which holds the example results at address 7.\<close>

theorem renderInStore_leaves_results_unchanged_witness:
  "readResults exampleStore 7 = Some exampleResults \<and>
   (\<exists>flat counts s'.
      renderInStore 7 exampleStore = Some (flat, counts, s') \<and>
      take (length exampleStore) s' = exampleStore \<and>
      readResults s' 7 = Some exampleResults \<and>
      readRows s' flat = Some (flattenedBestPractices exampleResults))"
proof -
  have r: "readResults exampleStore 7 = Some exampleResults"
    by (simp add: readResults_def readResult_def deref_def exampleStore_def exampleResults_def)
  from renderInStore_leaves_results_unchanged [of 7 exampleStore] r
  show ?thesis by blast
qed

end
